theory Spec2Isabelle
  imports Main
begin

section \<open>Values of the Python runtime\<close>

text \<open>
  The exceptions the modelled code can meet. Every \<^verbatim>\<open>raise\<close> is a value \<open>Inl e\<close> of a
  result type \<open>py_error + 'a\<close>.
\<close>

datatype py_error = KeyError | TypeError | ValueError | ScheduleValueError
  | CalledProcessError | OtherException

text \<open>
  A decoded JSON document, as \<^verbatim>\<open>response.json()\<close> returns it. An object is the list of
  its items in insertion order; the keys of a decoded object are distinct.
\<close>

datatype json = JNull | JBool bool | JNum int | JStr string
  | JArr "json list" | JObj "(string \<times> json) list"

text \<open>\<^verbatim>\<open>v[k]\<close> for a string key: a missing key raises, and so does indexing anything
  that is not a dict with a string.\<close>

fun getitem :: "json \<Rightarrow> string \<Rightarrow> py_error + json" where
  "getitem (JObj kvs) k = (case map_of kvs k of None \<Rightarrow> Inl KeyError | Some v \<Rightarrow> Inr v)"
| "getitem _ k = Inl TypeError"

subsection \<open>Naive datetimes\<close>

text \<open>
  A \<^verbatim>\<open>datetime\<close> is the number of microseconds since midnight of day 0 of the proleptic
  calendar, a \<^verbatim>\<open>timedelta\<close> a number of microseconds, a \<^verbatim>\<open>time\<close> the microseconds since
  midnight. Python's arithmetic on naive datetimes is exact on these numbers; the model
  leaves out the upper end of the calendar (year 9999), where Python raises OverflowError.
\<close>

type_synonym datetime = int
type_synonym timedelta = int
type_synonym time_of_day = int

definition us_per_day :: int where
  "us_per_day = 86400000000"

definition date_of :: "datetime \<Rightarrow> int" where
  "date_of dt = dt div us_per_day"

definition time_of :: "datetime \<Rightarrow> time_of_day" where
  "time_of dt = dt mod us_per_day"

definition combine :: "int \<Rightarrow> time_of_day \<Rightarrow> datetime" where
  "combine d t = d * us_per_day + t"

definition days :: "int \<Rightarrow> timedelta" where
  "days n = n * us_per_day"

definition mk_time :: "nat \<Rightarrow> nat \<Rightarrow> time_of_day" where
  "mk_time h m = (int h * 60 + int m) * 60000000"

subsection \<open>\<^verbatim>\<open>strptime(s, "%H:%M")\<close> and \<^verbatim>\<open>strftime("%H:%M")\<close>\<close>

text \<open>
  \<^verbatim>\<open>_strptime\<close> turns the format into the regular expression
  \<^verbatim>\<open>(?P<H>2[0-3]|[0-1]\d|\d):(?P<M>[0-5]\d|\d)\<close>, matches it at the start of the string and
  raises ValueError when nothing matches or when characters remain after the match.
  \<open>re_H\<close> and \<open>re_M\<close> list the matches of the two groups in the order the regular
  expression engine tries them, each with the rest of the input. Strings are byte
  strings here, so the digits are the ASCII digits.
\<close>

definition digit_val :: "char \<Rightarrow> nat option" where
  "digit_val c = (let n = (of_char c :: nat) in if 48 \<le> n \<and> n \<le> 57 then Some (n - 48) else None)"

definition re_H :: "string \<Rightarrow> (nat \<times> string) list" where
  "re_H s =
     (case s of
        a # b # r \<Rightarrow>
          (case (digit_val a, digit_val b) of
             (Some x, Some y) \<Rightarrow>
               (if x = 2 \<and> y \<le> 3 then [(20 + y, r)] else [])
               @ (if x \<le> 1 then [(10 * x + y, r)] else [])
           | _ \<Rightarrow> [])
      | _ \<Rightarrow> [])
     @ (case s of
          a # r \<Rightarrow> (case digit_val a of Some x \<Rightarrow> [(x, r)] | None \<Rightarrow> [])
        | _ \<Rightarrow> [])"

definition re_M :: "string \<Rightarrow> (nat \<times> string) list" where
  "re_M s =
     (case s of
        a # b # r \<Rightarrow>
          (case (digit_val a, digit_val b) of
             (Some x, Some y) \<Rightarrow> (if x \<le> 5 then [(10 * x + y, r)] else [])
           | _ \<Rightarrow> [])
      | _ \<Rightarrow> [])
     @ (case s of
          a # r \<Rightarrow> (case digit_val a of Some x \<Rightarrow> [(x, r)] | None \<Rightarrow> [])
        | _ \<Rightarrow> [])"

definition re_colon :: "string \<Rightarrow> string list" where
  "re_colon s = (case s of c # r \<Rightarrow> (if c = CHR '':'' then [r] else []) | [] \<Rightarrow> [])"

definition re_HM :: "string \<Rightarrow> (nat \<times> nat \<times> string) list" where
  "re_HM s = concat (map (\<lambda>(h, r). concat (map (\<lambda>r'. map (\<lambda>(m, r''). (h, m, r'')) (re_M r'))
                                               (re_colon r)))
                         (re_H s))"

definition strptime_HM :: "json \<Rightarrow> py_error + time_of_day" where
  "strptime_HM v =
     (case v of
        JStr s \<Rightarrow>
          (case re_HM s of
             [] \<Rightarrow> Inl ValueError
           | (h, m, rest) # _ \<Rightarrow> if rest = [] then Inr (mk_time h m) else Inl ValueError)
      | _ \<Rightarrow> Inl TypeError)"

definition two_digits :: "nat \<Rightarrow> string" where
  "two_digits n = [char_of (48 + n div 10), char_of (48 + n mod 10)]"

definition strftime_HM :: "time_of_day \<Rightarrow> string" where
  "strftime_HM t = two_digits (nat (t div 3600000000)) @ '':'' @ two_digits (nat (t div 60000000 mod 60))"

section \<open>The application object\<close>

text \<open>
  The fields of \<^verbatim>\<open>AzaanApp\<close> that the schedule logic reads and writes. \<open>prayer_times\<close>
  is the dict in insertion order; \<open>jobs\<close> is the job list of the \<^verbatim>\<open>schedule\<close> module's
  default scheduler, which \<^verbatim>\<open>schedule_prayers\<close> clears and fills.
\<close>

datatype job_action = PlayAzaan string | FetchAndReschedule

record job =
  at_time :: json
  action :: job_action

record app =
  prayer_times :: "(string \<times> json) list"
  prayer_date :: "json option"
  mock_time :: "datetime option"
  mock_start_time :: "datetime option"
  played_prayers :: "string set"
  jobs :: "job list"

text \<open>\<^verbatim>\<open>__init__\<close>, with the audio file present; \<open>wall\<close> is what \<^verbatim>\<open>datetime.now()\<close>
  returns at that moment.\<close>

definition init :: "datetime option \<Rightarrow> datetime \<Rightarrow> job list \<Rightarrow> app" where
  "init mt wall js =
     \<lparr> prayer_times = [], prayer_date = None, mock_time = mt,
       mock_start_time = (if mt \<noteq> None then Some wall else None),
       played_prayers = {}, jobs = js \<rparr>"

subsection \<open>\<^verbatim>\<open>get_current_time\<close>\<close>

definition get_current_time :: "app \<Rightarrow> datetime \<Rightarrow> datetime" where
  "get_current_time self wall =
     (case (mock_time self, mock_start_time self) of
        (Some mt, Some st) \<Rightarrow> (let elapsed = wall - st in mt + elapsed)
      | _ \<Rightarrow> wall)"

subsection \<open>\<^verbatim>\<open>get_next_prayer\<close>\<close>

text \<open>The loop that turns every entry into a datetime of today; the first entry that
  does not parse raises.\<close>

fun prayer_list_of :: "int \<Rightarrow> (string \<times> json) list \<Rightarrow> py_error + (string \<times> datetime) list" where
  "prayer_list_of d [] = Inr []"
| "prayer_list_of d ((prayer, time_str) # rest) =
     (case strptime_HM time_str of
        Inl e \<Rightarrow> Inl e
      | Inr prayer_time \<Rightarrow>
          (case prayer_list_of d rest of
             Inl e \<Rightarrow> Inl e
           | Inr l \<Rightarrow> Inr ((prayer, combine d prayer_time) # l)))"

text \<open>
  The result is \<open>None\<close> for the triple \<^verbatim>\<open>(None, None, None)\<close>, and otherwise the name, the
  time as the code returns it (a formatted string in the loop, the stored value in the
  fall-through) and the timedelta. \<^verbatim>\<open>list.sort\<close> is stable, as \<open>sort_key\<close> is.
\<close>

definition get_next_prayer :: "app \<Rightarrow> datetime \<Rightarrow> py_error + (string \<times> json \<times> timedelta) option" where
  "get_next_prayer self wall =
     (if prayer_times self = [] then Inr None
      else
        let now = get_current_time self wall;
            current_time = time_of now
        in case prayer_list_of (date_of now) (prayer_times self) of
             Inl e \<Rightarrow> Inl e
           | Inr prayer_list \<Rightarrow>
               (case find (\<lambda>(prayer, prayer_datetime). time_of prayer_datetime > current_time)
                          (sort_key snd prayer_list) of
                  Some (prayer, prayer_datetime) \<Rightarrow>
                    Inr (Some (prayer, JStr (strftime_HM (time_of prayer_datetime)), prayer_datetime - now))
                | None \<Rightarrow>
                    let tomorrow = now + days 1 in
                    (case map_of (prayer_times self) ''Fajr'' of
                       None \<Rightarrow> Inl KeyError
                     | Some fajr \<Rightarrow>
                         (case strptime_HM fajr of
                            Inl e \<Rightarrow> Inl e
                          | Inr t \<Rightarrow> Inr (Some (''Fajr'', fajr, combine (date_of tomorrow) t - now))))))"

text \<open>
  The names the dict literal of \<^verbatim>\<open>fetch_prayer_times\<close> stores, in its order. A table is
  valid when it holds these five names and every time parses.
\<close>

definition prayer_names :: "string list" where
  "prayer_names = [''Fajr'', ''Dhuhr'', ''Asr'', ''Maghrib'', ''Isha'']"

definition parses :: "json \<Rightarrow> bool" where
  "parses v = (case strptime_HM v of Inr _ \<Rightarrow> True | Inl _ \<Rightarrow> False)"

definition valid_table :: "(string \<times> json) list \<Rightarrow> bool" where
  "valid_table pt \<longleftrightarrow> map fst pt = prayer_names \<and> list_all (\<lambda>(p, v). parses v) pt"

subsection \<open>\<^verbatim>\<open>fetch_prayer_times\<close>\<close>

text \<open>
  What \<^verbatim>\<open>requests.get\<close> gives: it raises, or it returns a response with a status code
  and a body; the body is \<open>None\<close> when \<^verbatim>\<open>response.json()\<close> raises.
\<close>

datatype http_result = RequestFailed | Response int "json option"

text \<open>What the program does that can be observed from outside: a request to the
  supplier, the start of a playback, its end, the report of its failure.\<close>

datatype event = Fetching | Playing string | Completed string | ErrorPlaying string py_error

text \<open>The dict literal: five lookups in \<open>timings\<close>, the first missing one raises.\<close>

fun lookup_all :: "json \<Rightarrow> string list \<Rightarrow> py_error + (string \<times> json) list" where
  "lookup_all timings [] = Inr []"
| "lookup_all timings (k # ks) =
     (case getitem timings k of
        Inl e \<Rightarrow> Inl e
      | Inr v \<Rightarrow> (case lookup_all timings ks of Inl e \<Rightarrow> Inl e | Inr kvs \<Rightarrow> Inr ((k, v) # kvs)))"

definition get_timings :: "json \<Rightarrow> py_error + json" where
  "get_timings data = (case getitem data ''data'' of Inl e \<Rightarrow> Inl e | Inr d \<Rightarrow> getitem d ''timings'')"

definition get_readable :: "json \<Rightarrow> py_error + json" where
  "get_readable data =
     (case getitem data ''data'' of
        Inl e \<Rightarrow> Inl e
      | Inr d \<Rightarrow> (case getitem d ''date'' of Inl e \<Rightarrow> Inl e | Inr dd \<Rightarrow> getitem dd ''readable''))"

text \<open>
  Every exception inside the \<^verbatim>\<open>try\<close> ends in \<^verbatim>\<open>return False\<close>, with the assignments
  made before it kept: \<open>prayer_times\<close> is assigned before the date is read.
\<close>

definition fetch_prayer_times :: "http_result \<Rightarrow> app \<Rightarrow> app \<times> bool \<times> event list" where
  "fetch_prayer_times r self =
     (case r of
        RequestFailed \<Rightarrow> (self, False, [Fetching])
      | Response status_code body \<Rightarrow>
          if status_code = 200 then
            (case body of
               None \<Rightarrow> (self, False, [Fetching])
             | Some data \<Rightarrow>
                 (case get_timings data of
                    Inl e \<Rightarrow> (self, False, [Fetching])
                  | Inr timings \<Rightarrow>
                      (case lookup_all timings prayer_names of
                         Inl e \<Rightarrow> (self, False, [Fetching])
                       | Inr pt \<Rightarrow>
                           let self1 = self\<lparr>prayer_times := pt\<rparr> in
                           (case get_readable data of
                              Inl e \<Rightarrow> (self1, False, [Fetching])
                            | Inr readable \<Rightarrow>
                                (self1\<lparr>prayer_date := Some readable\<rparr>, True, [Fetching])))))
          else (self, False, [Fetching]))"

subsection \<open>\<^verbatim>\<open>play_azaan\<close>\<close>

text \<open>\<open>run_result\<close> is the outcome of \<^verbatim>\<open>subprocess.run\<close>. Both handlers print the
  error and return.\<close>

definition play_azaan :: "py_error + unit \<Rightarrow> string \<Rightarrow> py_error + event list" where
  "play_azaan run_result prayer_name =
     (case run_result of
        Inr _ \<Rightarrow> Inr [Playing prayer_name, Completed prayer_name]
      | Inl CalledProcessError \<Rightarrow> Inr [Playing prayer_name, ErrorPlaying prayer_name CalledProcessError]
      | Inl e \<Rightarrow> Inr [Playing prayer_name, ErrorPlaying prayer_name e])"

subsection \<open>\<^verbatim>\<open>schedule_prayers\<close> and \<^verbatim>\<open>fetch_and_reschedule\<close>\<close>

text \<open>
  \<open>at_check\<close> stands for the \<^verbatim>\<open>schedule\<close> library's own check of the argument of
  \<^verbatim>\<open>at\<close>: \<open>None\<close> when it accepts the value, the exception it raises otherwise.
\<close>

fun register_prayers :: "(json \<Rightarrow> py_error option) \<Rightarrow> (string \<times> json) list \<Rightarrow> job list
    \<Rightarrow> py_error + job list" where
  "register_prayers at_check [] js = Inr js"
| "register_prayers at_check ((prayer, time_str) # rest) js =
     (case at_check time_str of
        Some e \<Rightarrow> Inl e
      | None \<Rightarrow> register_prayers at_check rest
                  (js @ [\<lparr>at_time = time_str, action = PlayAzaan prayer\<rparr>]))"

definition schedule_prayers :: "(json \<Rightarrow> py_error option) \<Rightarrow> http_result \<Rightarrow> app
    \<Rightarrow> py_error + (app \<times> bool \<times> event list)" where
  "schedule_prayers at_check r self =
     (let (self1, ok, ev) =
            (if prayer_times self = [] then fetch_prayer_times r self else (self, True, []))
      in if \<not> ok then Inr (self1, False, ev)
         else
           (case register_prayers at_check (prayer_times self1) [] of
              Inl e \<Rightarrow> Inl e
            | Inr js \<Rightarrow>
                Inr (self1\<lparr>jobs := js @ [\<lparr>at_time = JStr ''00:01'', action = FetchAndReschedule\<rparr>]\<rparr>,
                     True, ev)))"

text \<open>After a successful fetch the table is not empty, so the \<^verbatim>\<open>schedule_prayers\<close>
  inside \<^verbatim>\<open>fetch_and_reschedule\<close> issues no second request; the answer passed on to it is
  never read.\<close>

definition fetch_and_reschedule :: "(json \<Rightarrow> py_error option) \<Rightarrow> http_result \<Rightarrow> app
    \<Rightarrow> py_error + (app \<times> event list)" where
  "fetch_and_reschedule at_check r self =
     (case fetch_prayer_times r self of
        (self1, True, ev) \<Rightarrow>
          (case schedule_prayers at_check r self1 of
             Inl e \<Rightarrow> Inl e
           | Inr (self2, _, ev') \<Rightarrow> Inr (self2, ev @ ev'))
      | (self1, False, ev) \<Rightarrow> Inr (self1, ev))"

subsection \<open>\<^verbatim>\<open>check_prayer_times_mock\<close>\<close>

fun check_loop :: "(string \<Rightarrow> py_error + unit) \<Rightarrow> string \<Rightarrow> (string \<times> json) list \<Rightarrow> app
    \<Rightarrow> py_error + (app \<times> event list)" where
  "check_loop afplay current_time_str [] self = Inr (self, [])"
| "check_loop afplay current_time_str ((prayer, time_str) # rest) self =
     (if JStr current_time_str = time_str \<and> prayer \<notin> played_prayers self then
        let self1 = self\<lparr>played_prayers := insert prayer (played_prayers self)\<rparr> in
        (case play_azaan (afplay prayer) prayer of
           Inl e \<Rightarrow> Inl e
         | Inr out \<Rightarrow>
             (case check_loop afplay current_time_str rest self1 of
                Inl e \<Rightarrow> Inl e
              | Inr (self2, out') \<Rightarrow> Inr (self2, out @ out')))
      else check_loop afplay current_time_str rest self)"

definition check_prayer_times_mock :: "(string \<Rightarrow> py_error + unit) \<Rightarrow> app \<Rightarrow> datetime
    \<Rightarrow> py_error + (app \<times> event list)" where
  "check_prayer_times_mock afplay self wall =
     (let now = get_current_time self wall;
          current_time_str = strftime_HM (time_of now)
      in check_loop afplay current_time_str (prayer_times self) self)"

subsection \<open>The loop of \<^verbatim>\<open>run\<close>\<close>

text \<open>
  What one pass of the \<^verbatim>\<open>while True\<close> loop meets: the wall clock, the outcome of a
  playback of each name, the supplier's answer, and the jobs that the \<^verbatim>\<open>schedule\<close>
  library finds due in \<^verbatim>\<open>run_pending\<close>, in the order in which it runs them.
\<close>

record iteration =
  wall_clock :: datetime
  playback :: "string \<Rightarrow> py_error + unit"
  response :: http_result
  pending :: "job list"

fun run_jobs :: "(json \<Rightarrow> py_error option) \<Rightarrow> iteration \<Rightarrow> job list \<Rightarrow> app
    \<Rightarrow> py_error + (app \<times> event list)" where
  "run_jobs at_check it [] self = Inr (self, [])"
| "run_jobs at_check it (j # js) self =
     (case (case action j of
              PlayAzaan prayer \<Rightarrow>
                (case play_azaan (playback it prayer) prayer of
                   Inl e \<Rightarrow> Inl e
                 | Inr out \<Rightarrow> Inr (self, out))
            | FetchAndReschedule \<Rightarrow> fetch_and_reschedule at_check (response it) self) of
        Inl e \<Rightarrow> Inl e
      | Inr (self1, out) \<Rightarrow>
          (case run_jobs at_check it js self1 of
             Inl e \<Rightarrow> Inl e
           | Inr (self2, out') \<Rightarrow> Inr (self2, out @ out')))"

definition loop_body :: "(json \<Rightarrow> py_error option) \<Rightarrow> iteration \<Rightarrow> app
    \<Rightarrow> py_error + (app \<times> event list)" where
  "loop_body at_check it self =
     (if mock_time self \<noteq> None then check_prayer_times_mock (playback it) self (wall_clock it)
      else run_jobs at_check it (pending it) self)"

text \<open>The state and the events after the given passes of the loop; an exception
  ends the loop.\<close>

fun run_loop :: "(json \<Rightarrow> py_error option) \<Rightarrow> iteration list \<Rightarrow> app
    \<Rightarrow> py_error + (app \<times> event list)" where
  "run_loop at_check [] self = Inr (self, [])"
| "run_loop at_check (it # its) self =
     (case loop_body at_check it self of
        Inl e \<Rightarrow> Inl e
      | Inr (self1, out) \<Rightarrow>
          (case run_loop at_check its self1 of
             Inl e \<Rightarrow> Inl e
           | Inr (self2, out') \<Rightarrow> Inr (self2, out @ out')))"

text \<open>The loop of \<^verbatim>\<open>run\<close> that prints the first prayer later than now: it parses the
  times in table order and stops at the first later one, so a time that does not parse
  raises if it is reached.\<close>

fun print_next :: "time_of_day \<Rightarrow> (string \<times> json) list \<Rightarrow> py_error + unit" where
  "print_next now [] = Inr ()"
| "print_next now ((prayer, time_str) # rest) =
     (case strptime_HM time_str of
        Inl e \<Rightarrow> Inl e
      | Inr prayer_time \<Rightarrow> if prayer_time > now then Inr () else print_next now rest)"

text \<open>\<^verbatim>\<open>run\<close>: the first \<^verbatim>\<open>schedule_prayers\<close>, the printed overview at the reading
  \<open>wall\<close> of the clock, then the loop. The web server thread only reads the state and is
  left out.\<close>

definition run :: "(json \<Rightarrow> py_error option) \<Rightarrow> http_result \<Rightarrow> datetime \<Rightarrow> iteration list \<Rightarrow> app
    \<Rightarrow> py_error + (app \<times> event list)" where
  "run at_check r wall its self =
     (case schedule_prayers at_check r self of
        Inl e \<Rightarrow> Inl e
      | Inr (self1, False, ev) \<Rightarrow> Inr (self1, ev)
      | Inr (self1, True, ev) \<Rightarrow>
          (case print_next (time_of (get_current_time self1 wall)) (prayer_times self1) of
             Inl e \<Rightarrow> Inl e
           | Inr _ \<Rightarrow>
               (case run_loop at_check its self1 of
                  Inl e \<Rightarrow> Inl e
                | Inr (self2, out) \<Rightarrow> Inr (self2, ev @ out))))"

subsection \<open>The \<^verbatim>\<open>schedule\<close> library and the refresh job\<close>

text \<open>
  The job that \<^verbatim>\<open>schedule.every().day.at("00:01").do(self.fetch_and_reschedule)\<close>
  registers, and the next run time that the library gives it when it is registered, or
  has just been run, at the reading \<open>now\<close> of the clock: 00:01 of today when that is
  still to come, 00:01 of tomorrow otherwise.
\<close>

definition refresh_job :: job where
  "refresh_job = \<lparr>at_time = JStr ''00:01'', action = FetchAndReschedule\<rparr>"

definition is_refresh :: "job \<Rightarrow> bool" where
  "is_refresh j \<longleftrightarrow> action j = FetchAndReschedule"

definition at_0001 :: time_of_day where
  "at_0001 = mk_time 0 1"

definition next_0001 :: "datetime \<Rightarrow> datetime" where
  "next_0001 now =
     (if at_0001 > time_of now then combine (date_of now) at_0001
      else combine (date_of now + 1) at_0001)"

text \<open>
  What the loop relies on from \<^verbatim>\<open>run_pending\<close>, for the refresh job: in a pass the
  library runs the registered refresh job exactly when the clock has reached the job's
  next run time, and the next run time is then the next 00:01 after the clock. A pass
  has one reading of the clock. \<open>library_runs_refresh\<close> says that the \<open>pending\<close> lists of
  the passes are the library's in this sense, along the states that the loop goes through.
\<close>

fun library_runs_refresh :: "(json \<Rightarrow> py_error option) \<Rightarrow> datetime \<Rightarrow> iteration list \<Rightarrow> app
    \<Rightarrow> bool" where
  "library_runs_refresh at_check next_run [] self = True"
| "library_runs_refresh at_check next_run (it # its) self =
     (filter is_refresh (pending it) =
        (if next_run \<le> wall_clock it then filter is_refresh (jobs self) else [])
      \<and> (case loop_body at_check it self of
            Inl e \<Rightarrow> True
          | Inr (self1, out) \<Rightarrow>
              library_runs_refresh at_check
                (if next_run \<le> wall_clock it then next_0001 (wall_clock it) else next_run) its self1))"

text \<open>The number of passes that are the first at or after a 00:01, \<open>prev\<close> being the
  reading of the clock before the first pass.\<close>

fun passes_after_0001 :: "datetime \<Rightarrow> iteration list \<Rightarrow> nat" where
  "passes_after_0001 prev [] = 0"
| "passes_after_0001 prev (it # its) =
     (if next_0001 prev \<le> wall_clock it then 1 else 0) + passes_after_0001 (wall_clock it) its"

text \<open>The cadence of the loop: every pass follows the reading before it by less than a
  day (the loop sleeps sixty seconds between two passes).\<close>

fun within_a_day :: "datetime \<Rightarrow> iteration list \<Rightarrow> bool" where
  "within_a_day prev [] = True"
| "within_a_day prev (it # its) =
     (prev \<le> wall_clock it \<and> wall_clock it < prev + us_per_day \<and> within_a_day (wall_clock it) its)"

section \<open>Concrete inputs\<close>

text \<open>The table of the specification's scenarios, a supplier payload that carries it,
  one without the date, one with a name missing and one with a time that is no time.\<close>

definition scenario_table :: "(string \<times> json) list" where
  "scenario_table =
     [(''Fajr'', JStr ''05:30''), (''Dhuhr'', JStr ''12:15''), (''Asr'', JStr ''15:45''),
      (''Maghrib'', JStr ''18:20''), (''Isha'', JStr ''19:45'')]"

definition payload_ok :: json where
  "payload_ok =
     JObj [(''code'', JNum 200),
           (''data'', JObj [(''timings'', JObj scenario_table),
                            (''date'', JObj [(''readable'', JStr ''04 Nov 2026'')])])]"

definition payload_no_date :: json where
  "payload_no_date = JObj [(''code'', JNum 200), (''data'', JObj [(''timings'', JObj scenario_table)])]"

definition payload_no_isha :: json where
  "payload_no_isha =
     JObj [(''code'', JNum 200),
           (''data'', JObj [(''timings'', JObj (butlast scenario_table)),
                            (''date'', JObj [(''readable'', JStr ''04 Nov 2026'')])])]"

definition bad_table :: "(string \<times> json) list" where
  "bad_table =
     [(''Fajr'', JStr ''25:99''), (''Dhuhr'', JStr ''12:15''), (''Asr'', JStr ''15:45''),
      (''Maghrib'', JStr ''18:20''), (''Isha'', JStr ''19:45'')]"

definition payload_bad_time :: json where
  "payload_bad_time =
     JObj [(''code'', JNum 200),
           (''data'', JObj [(''timings'', JObj bad_table),
                            (''date'', JObj [(''readable'', JStr ''04 Nov 2026'')])])]"

definition accept_all :: "json \<Rightarrow> py_error option" where
  "accept_all v = None"

definition plays_fine :: "string \<Rightarrow> py_error + unit" where
  "plays_fine prayer = Inr ()"

definition plays_badly :: "string \<Rightarrow> py_error + unit" where
  "plays_badly prayer = Inl CalledProcessError"

text \<open>Day 738000 at noon and at 20:00: two readings of the wall clock.\<close>

definition noon :: datetime where
  "noon = combine 738000 (mk_time 12 0)"

definition evening :: datetime where
  "evening = combine 738000 (mk_time 20 0)"

text \<open>An application in real mode that holds the scenario table, and one in simulated
  mode, started at 18:19:50 of the simulated clock, that has already played Fajr.\<close>

definition app_real :: app where
  "app_real = (init None noon [])\<lparr>prayer_times := scenario_table, prayer_date := Some (JStr ''03 Nov 2026'')\<rparr>"

definition app_mock :: app where
  "app_mock =
     (init (Some (combine 738000 (mk_time 18 19) + 50000000)) noon [])
       \<lparr>prayer_times := scenario_table, prayer_date := Some (JStr ''03 Nov 2026''),
        played_prayers := {''Fajr''}\<rparr>"

text \<open>The jobs that \<^verbatim>\<open>schedule_prayers\<close> registers for the scenario table, a table of
  the day before, and a pass of the loop at a given reading of the wall clock.\<close>

definition scenario_jobs :: "job list" where
  "scenario_jobs =
     [\<lparr>at_time = JStr ''05:30'', action = PlayAzaan ''Fajr''\<rparr>,
      \<lparr>at_time = JStr ''12:15'', action = PlayAzaan ''Dhuhr''\<rparr>,
      \<lparr>at_time = JStr ''15:45'', action = PlayAzaan ''Asr''\<rparr>,
      \<lparr>at_time = JStr ''18:20'', action = PlayAzaan ''Maghrib''\<rparr>,
      \<lparr>at_time = JStr ''19:45'', action = PlayAzaan ''Isha''\<rparr>,
      \<lparr>at_time = JStr ''00:01'', action = FetchAndReschedule\<rparr>]"

definition stale_table :: "(string \<times> json) list" where
  "stale_table =
     [(''Fajr'', JStr ''05:29''), (''Dhuhr'', JStr ''12:15''), (''Asr'', JStr ''15:46''),
      (''Maghrib'', JStr ''18:21''), (''Isha'', JStr ''19:46'')]"

definition stale_jobs :: "job list" where
  "stale_jobs =
     [\<lparr>at_time = JStr ''05:29'', action = PlayAzaan ''Fajr''\<rparr>,
      \<lparr>at_time = JStr ''12:15'', action = PlayAzaan ''Dhuhr''\<rparr>,
      \<lparr>at_time = JStr ''15:46'', action = PlayAzaan ''Asr''\<rparr>,
      \<lparr>at_time = JStr ''18:21'', action = PlayAzaan ''Maghrib''\<rparr>,
      \<lparr>at_time = JStr ''19:46'', action = PlayAzaan ''Isha''\<rparr>,
      \<lparr>at_time = JStr ''00:01'', action = FetchAndReschedule\<rparr>]"

definition app_stale :: app where
  "app_stale = app_real\<lparr>prayer_times := stale_table\<rparr>"

definition pass_at :: "datetime \<Rightarrow> (string \<Rightarrow> py_error + unit) \<Rightarrow> iteration" where
  "pass_at w p = \<lparr>wall_clock = w, playback = p, response = Response 200 (Some payload_ok),
                 pending = [\<lparr>at_time = JStr ''00:01'', action = FetchAndReschedule\<rparr>]\<rparr>"

text \<open>A payload of the following day, a pass of the loop in which the library finds
  nothing due, and the states of an application in simulated mode after its
  construction, after its first \<^verbatim>\<open>schedule_prayers\<close>, after the tick at 18:20 and after a
  refresh with the payload of the following day.\<close>

definition payload_next :: json where
  "payload_next =
     JObj [(''code'', JNum 200),
           (''data'', JObj [(''timings'', JObj stale_table),
                            (''date'', JObj [(''readable'', JStr ''05 Nov 2026'')])])]"

definition idle_at :: "datetime \<Rightarrow> iteration" where
  "idle_at w = \<lparr>wall_clock = w, playback = plays_fine, response = RequestFailed, pending = []\<rparr>"

definition app_sim0 :: app where
  "app_sim0 = init (Some (combine 738000 (mk_time 18 19) + 50000000)) noon []"

definition app_sim1 :: app where
  "app_sim1 = app_sim0\<lparr>prayer_times := scenario_table, prayer_date := Some (JStr ''04 Nov 2026''),
                        jobs := scenario_jobs\<rparr>"

definition app_sim2 :: app where
  "app_sim2 = app_sim1\<lparr>played_prayers := {''Maghrib''}\<rparr>"

definition app_sim3 :: app where
  "app_sim3 = app_sim2\<lparr>prayer_times := stale_table, prayer_date := Some (JStr ''05 Nov 2026''),
                        jobs := stale_jobs\<rparr>"

text \<open>An application in real mode with its jobs registered at noon, and four passes of
  the loop after that: at 20:00, at 00:01:30 of the next day, at noon of that day and at
  00:01:00 of the day after; the library finds the refresh job due in the second and in
  the fourth.\<close>

definition app_scheduled :: app where
  "app_scheduled = app_stale\<lparr>jobs := stale_jobs\<rparr>"

definition real_passes :: "iteration list" where
  "real_passes =
     [idle_at evening,
      pass_at (combine 738001 (mk_time 0 1) + 30000000) plays_fine,
      idle_at (combine 738001 (mk_time 12 0)),
      pass_at (combine 738002 (mk_time 0 1)) plays_fine]"

section \<open>Facts about times and parsing\<close>

lemma digit_val_le: "digit_val c = Some x \<Longrightarrow> x \<le> 9"
  by (auto simp: digit_val_def Let_def split: if_splits)

lemma re_H_bound: "(h, r) \<in> set (re_H s) \<Longrightarrow> h \<le> 23"
  by (auto simp: re_H_def split: list.splits option.splits if_splits dest!: digit_val_le digit_val_le[OF sym])

lemma re_M_bound: "(m, r) \<in> set (re_M s) \<Longrightarrow> m \<le> 59"
  by (auto simp: re_M_def split: list.splits option.splits if_splits dest!: digit_val_le digit_val_le[OF sym])

lemma re_HM_bound: "(h, m, r) \<in> set (re_HM s) \<Longrightarrow> h \<le> 23 \<and> m \<le> 59"
  by (auto simp: re_HM_def dest: re_H_bound re_M_bound)

lemma mk_time_range: "h \<le> 23 \<Longrightarrow> m \<le> 59 \<Longrightarrow> 0 \<le> mk_time h m \<and> mk_time h m < us_per_day"
  by (simp add: mk_time_def us_per_day_def)

lemma strptime_HM_range:
  assumes "strptime_HM v = Inr t"
  shows "0 \<le> t \<and> t < us_per_day"
proof -
  from assms obtain s h m rest rest' where "re_HM s = (h, m, rest) # rest'" and t: "t = mk_time h m"
    by (auto simp: strptime_HM_def split: json.splits list.splits if_splits)
  then have "(h, m, rest) \<in> set (re_HM s)" by simp
  then have "h \<le> 23 \<and> m \<le> 59" by (rule re_HM_bound)
  with t show ?thesis by (simp add: mk_time_range)
qed

lemma time_of_range: "0 \<le> time_of dt \<and> time_of dt < us_per_day"
  by (simp add: time_of_def us_per_day_def)

lemma time_of_combine: "0 \<le> t \<Longrightarrow> t < us_per_day \<Longrightarrow> time_of (combine d t) = t"
  by (simp add: combine_def time_of_def)

lemma date_of_tomorrow: "date_of (dt + days 1) = date_of dt + 1"
  by (simp add: date_of_def days_def us_per_day_def)

lemma combine_minus: "combine (date_of now) t - now = t - time_of now"
  by (simp add: combine_def date_of_def time_of_def minus_mult_div_eq_mod[symmetric] algebra_simps)

lemma find_sorted_least:
  fixes f :: "'a \<Rightarrow> 'b::linorder"
  shows "sorted (map f ys) \<Longrightarrow> find P ys = Some x \<Longrightarrow>
         x \<in> set ys \<and> P x \<and> (\<forall>y\<in>set ys. P y \<longrightarrow> f x \<le> f y)"
  by (induction ys) (auto split: if_splits)

lemma find_sort_key_Some:
  fixes f :: "'a \<Rightarrow> 'b::linorder"
  assumes "find P (sort_key f xs) = Some x"
  shows "x \<in> set xs \<and> P x \<and> (\<forall>y\<in>set xs. P y \<longrightarrow> f x \<le> f y)"
  using find_sorted_least[of f "sort_key f xs" P x] assms by simp

lemma find_sort_key_None:
  fixes f :: "'a \<Rightarrow> 'b::linorder"
  shows "find P (sort_key f xs) = None \<longleftrightarrow> (\<forall>y\<in>set xs. \<not> P y)"
  by (auto simp: find_None_iff)

lemma prayer_list_of_set:
  "prayer_list_of d pt = Inr l \<Longrightarrow>
   set l = {(p, combine d t) | p v t. (p, v) \<in> set pt \<and> strptime_HM v = Inr t}"
proof (induction pt arbitrary: l)
  case Nil
  then show ?case by simp
next
  case (Cons a pt)
  obtain p v where a: "a = (p, v)" by (cases a)
  from Cons.prems a obtain t l' where t: "strptime_HM v = Inr t" and l': "prayer_list_of d pt = Inr l'"
    and l: "l = (p, combine d t) # l'"
    by (auto split: sum.splits)
  from Cons.IH[OF l'] t l a show ?case by auto
qed

lemma prayer_list_of_total:
  "(\<forall>(p, v) \<in> set pt. \<exists>t. strptime_HM v = Inr t) \<Longrightarrow> \<exists>l. prayer_list_of d pt = Inr l"
  by (induction pt) (auto split: sum.splits)


lemma get_next_prayer_Some:
  assumes r: "get_next_prayer self wall = Inr (Some (p, s, d))"
  shows "(\<exists>v t. (p, v) \<in> set (prayer_times self) \<and> strptime_HM v = Inr t \<and>
            time_of (get_current_time self wall) < t \<and>
            s = JStr (strftime_HM t) \<and>
            d = combine (date_of (get_current_time self wall)) t - get_current_time self wall \<and>
            (\<forall>(q, v') \<in> set (prayer_times self). \<forall>t'. strptime_HM v' = Inr t' \<longrightarrow>
                time_of (get_current_time self wall) < t' \<longrightarrow> t \<le> t'))
       \<or> ((\<forall>(q, v') \<in> set (prayer_times self). \<forall>t'. strptime_HM v' = Inr t' \<longrightarrow>
                t' \<le> time_of (get_current_time self wall)) \<and>
           p = ''Fajr'' \<and> map_of (prayer_times self) ''Fajr'' = Some s \<and>
           (\<exists>t. strptime_HM s = Inr t \<and>
                d = combine (date_of (get_current_time self wall) + 1) t - get_current_time self wall))"
proof -
  define now where "now = get_current_time self wall"
  define pt where "pt = prayer_times self"
  from r obtain l where l: "prayer_list_of (date_of now) pt = Inr l" and ne: "pt \<noteq> []"
    unfolding get_next_prayer_def now_def pt_def
    by (auto simp: Let_def split: if_splits sum.splits)
  note sl = prayer_list_of_set[OF l]
  let ?P = "\<lambda>(prayer, prayer_datetime). time_of prayer_datetime > time_of now"
  show ?thesis
  proof (cases "find ?P (sort_key snd l)")
    case None
    then have no: "\<forall>y\<in>set l. \<not> ?P y" by (simp add: find_sort_key_None)
    have a: "\<forall>(q, v') \<in> set pt. \<forall>t'. strptime_HM v' = Inr t' \<longrightarrow> t' \<le> time_of now"
    proof (clarify)
      fix q v' t' assume m: "(q, v') \<in> set pt" and t': "strptime_HM v' = Inr t'"
      then have "(q, combine (date_of now) t') \<in> set l" using sl by blast
      with no have "\<not> time_of (combine (date_of now) t') > time_of now" by auto
      with strptime_HM_range[OF t'] show "t' \<le> time_of now" by (simp add: time_of_combine)
    qed
    from r None l ne have "p = ''Fajr'' \<and> map_of pt ''Fajr'' = Some s \<and>
           (\<exists>t. strptime_HM s = Inr t \<and> d = combine (date_of (now + days 1)) t - now)"
      unfolding get_next_prayer_def now_def pt_def
      by (auto simp: Let_def split: if_splits sum.splits option.splits)
    with a show ?thesis unfolding now_def pt_def by (simp add: date_of_tomorrow)
  next
    case (Some x)
    obtain q dt where x: "x = (q, dt)" by (cases x)
    from find_sort_key_Some[OF Some] x have xin: "(q, dt) \<in> set l" and Px: "time_of dt > time_of now"
      and least: "\<forall>y\<in>set l. ?P y \<longrightarrow> dt \<le> snd y" by auto
    from xin sl obtain v t where v: "(q, v) \<in> set pt" and t: "strptime_HM v = Inr t" and dt: "dt = combine (date_of now) t"
      by auto
    from r Some l ne x have res: "p = q" "s = JStr (strftime_HM (time_of dt))" "d = dt - now"
      unfolding get_next_prayer_def now_def pt_def
      by (auto simp: Let_def split: if_splits sum.splits option.splits)
    have tdt: "time_of dt = t" using dt strptime_HM_range[OF t] by (simp add: time_of_combine)
    have m: "\<forall>(q', v') \<in> set pt. \<forall>t'. strptime_HM v' = Inr t' \<longrightarrow> time_of now < t' \<longrightarrow> t \<le> t'"
    proof (clarify)
      fix q' v' t' assume m: "(q', v') \<in> set pt" and t': "strptime_HM v' = Inr t'" and lt: "time_of now < t'"
      then have "(q', combine (date_of now) t') \<in> set l" using sl by blast
      moreover have "time_of (combine (date_of now) t') = t'" using strptime_HM_range[OF t'] by (simp add: time_of_combine)
      ultimately have "dt \<le> combine (date_of now) t'" using least lt by fastforce
      then show "t \<le> t'" by (simp add: dt combine_def)
    qed
    have "(q, v) \<in> set pt \<and> strptime_HM v = Inr t \<and> time_of now < t \<and>
            s = JStr (strftime_HM t) \<and> d = combine (date_of now) t - now"
      using v t Px tdt res dt by simp
    with m res(1) show ?thesis unfolding now_def pt_def by blast
  qed
qed

lemma valid_table_parses:
  "valid_table pt \<Longrightarrow> (p, v) \<in> set pt \<Longrightarrow> \<exists>t. strptime_HM v = Inr t"
  by (cases "strptime_HM v") (auto simp: valid_table_def list_all_iff parses_def)

lemma valid_table_Fajr:
  "valid_table pt \<Longrightarrow> \<exists>v. map_of pt ''Fajr'' = Some v \<and> (''Fajr'', v) \<in> set pt"
  by (cases pt) (auto simp: valid_table_def prayer_names_def)

lemma get_next_prayer_total:
  assumes v: "valid_table (prayer_times self)"
  shows "\<exists>p s d. get_next_prayer self wall = Inr (Some (p, s, d))"
proof -
  define now where "now = get_current_time self wall"
  from v have ne: "prayer_times self \<noteq> []" by (auto simp: valid_table_def prayer_names_def)
  from v have "\<forall>(p, v) \<in> set (prayer_times self). \<exists>t. strptime_HM v = Inr t"
    by (auto dest: valid_table_parses)
  then obtain l where l: "prayer_list_of (date_of now) (prayer_times self) = Inr l"
    using prayer_list_of_total by blast
  from valid_table_Fajr[OF v] obtain f where f: "map_of (prayer_times self) ''Fajr'' = Some f"
    and fin: "(''Fajr'', f) \<in> set (prayer_times self)" by blast
  from valid_table_parses[OF v fin] obtain t where t: "strptime_HM f = Inr t" by blast
  show ?thesis
    unfolding get_next_prayer_def using ne l f t
    by (auto simp: Let_def now_def split: option.splits)
qed

section \<open>What each operation leaves alone\<close>

lemma lookup_all_keys: "lookup_all timings ks = Inr kvs \<Longrightarrow> map fst kvs = ks"
  by (induction ks arbitrary: kvs) (auto split: sum.splits)

lemma fetch_prayer_times_cases:
  assumes "fetch_prayer_times r self = (self', ok, ev)"
  shows "ev = [Fetching] \<and>
         (self' = self \<and> \<not> ok \<or>
          (\<exists>data timings pt. r = Response 200 (Some data) \<and> get_timings data = Inr timings \<and>
             lookup_all timings prayer_names = Inr pt \<and>
             ((\<exists>e. get_readable data = Inl e) \<and> self' = self\<lparr>prayer_times := pt\<rparr> \<and> \<not> ok \<or>
              (\<exists>d. get_readable data = Inr d \<and>
                   self' = self\<lparr>prayer_times := pt, prayer_date := Some d\<rparr> \<and> ok))))"
proof (cases r)
  case RequestFailed
  with assms show ?thesis by (simp add: fetch_prayer_times_def)
next
  case (Response status_code body)
  show ?thesis
  proof (cases "status_code = 200")
    case False
    with assms Response show ?thesis by (simp add: fetch_prayer_times_def)
  next
    case True
    show ?thesis
    proof (cases body)
      case None
      with assms Response True show ?thesis by (simp add: fetch_prayer_times_def)
    next
      case (Some data)
      show ?thesis
      proof (cases "get_timings data")
        case (Inl e)
        with assms Response True Some show ?thesis by (simp add: fetch_prayer_times_def)
      next
        case (Inr timings)
        show ?thesis
        proof (cases "lookup_all timings prayer_names")
          case (Inl e)
          with assms Response True Some Inr show ?thesis by (simp add: fetch_prayer_times_def)
        next
          case pt: (Inr pt)
          show ?thesis
          proof (cases "get_readable data")
            case (Inl e)
            with assms Response True Some Inr pt show ?thesis
              by (auto simp: fetch_prayer_times_def Let_def)
          next
            case d: (Inr d)
            with assms Response True Some Inr pt show ?thesis
              by (auto simp: fetch_prayer_times_def Let_def)
          qed
        qed
      qed
    qed
  qed
qed

lemma fetch_prayer_times_frame:
  assumes "fetch_prayer_times r self = (self', ok, ev)"
  shows "mock_time self' = mock_time self \<and> mock_start_time self' = mock_start_time self \<and>
         played_prayers self' = played_prayers self \<and> jobs self' = jobs self"
  using fetch_prayer_times_cases[OF assms] by auto

lemma fetch_prayer_times_success:
  assumes "fetch_prayer_times r self = (self', True, ev)"
  shows "map fst (prayer_times self') = prayer_names \<and> prayer_date self' \<noteq> None"
  using fetch_prayer_times_cases[OF assms] by (auto simp: lookup_all_keys)

lemma schedule_prayers_cases:
  assumes "schedule_prayers at_check r self = Inr (self', ok, ev)"
  shows "\<exists>s1 ok1. (if prayer_times self = [] then fetch_prayer_times r self else (self, True, []))
             = (s1, ok1, ev) \<and>
           (\<not> ok1 \<and> \<not> ok \<and> self' = s1 \<or>
            ok1 \<and> ok \<and>
              (\<exists>js. register_prayers at_check (prayer_times s1) [] = Inr js \<and>
                 self' = s1\<lparr>jobs := js @ [\<lparr>at_time = JStr ''00:01'', action = FetchAndReschedule\<rparr>]\<rparr>))"
proof -
  obtain s1 ok1 ev1 where
    f: "(if prayer_times self = [] then fetch_prayer_times r self else (self, True, [])) = (s1, ok1, ev1)"
    using prod_cases3 by blast
  show ?thesis
  proof (cases ok1)
    case False
    with assms f show ?thesis by (auto simp: schedule_prayers_def)
  next
    case True
    show ?thesis
    proof (cases "register_prayers at_check (prayer_times s1) []")
      case (Inl e)
      with assms f True show ?thesis by (simp add: schedule_prayers_def)
    next
      case (Inr js)
      with assms f True show ?thesis by (auto simp: schedule_prayers_def)
    qed
  qed
qed

lemma schedule_prayers_frame:
  assumes "schedule_prayers at_check r self = Inr (self', ok, ev)"
  shows "mock_time self' = mock_time self \<and> mock_start_time self' = mock_start_time self \<and>
         played_prayers self' = played_prayers self"
proof -
  from schedule_prayers_cases[OF assms] obtain s1 ok1 where
    f: "(if prayer_times self = [] then fetch_prayer_times r self else (self, True, [])) = (s1, ok1, ev)"
    and s: "self' = s1 \<or> (\<exists>js. self' = s1\<lparr>jobs := js\<rparr>)" by blast
  from s have s': "mock_time self' = mock_time s1 \<and> mock_start_time self' = mock_start_time s1 \<and>
        played_prayers self' = played_prayers s1"
  proof
    assume "self' = s1"
    then show ?thesis by simp
  next
    assume "\<exists>js. self' = s1\<lparr>jobs := js\<rparr>"
    then obtain js where "self' = s1\<lparr>jobs := js\<rparr>" ..
    then show ?thesis by simp
  qed
  have "mock_time s1 = mock_time self \<and> mock_start_time s1 = mock_start_time self \<and>
        played_prayers s1 = played_prayers self"
  proof (cases "prayer_times self = []")
    case True
    with f have "fetch_prayer_times r self = (s1, ok1, ev)" by simp
    from fetch_prayer_times_frame[OF this] show ?thesis by simp
  next
    case False
    with f show ?thesis by simp
  qed
  with s' show ?thesis by simp
qed

lemma fetch_and_reschedule_frame:
  assumes "fetch_and_reschedule at_check r self = Inr (self', ev)"
  shows "mock_time self' = mock_time self \<and> mock_start_time self' = mock_start_time self \<and>
         played_prayers self' = played_prayers self"
proof -
  obtain s1 ok1 ev1 where f: "fetch_prayer_times r self = (s1, ok1, ev1)"
    by (cases "fetch_prayer_times r self") auto
  show ?thesis
  proof (cases ok1)
    case True
    with assms f obtain ok2 ev2 where "schedule_prayers at_check r s1 = Inr (self', ok2, ev2)"
      by (auto simp: fetch_and_reschedule_def split: sum.splits)
    from schedule_prayers_frame[OF this] fetch_prayer_times_frame[OF f] show ?thesis by simp
  next
    case False
    with assms f have "self' = s1" by (auto simp: fetch_and_reschedule_def)
    with fetch_prayer_times_frame[OF f] show ?thesis by simp
  qed
qed

lemma play_azaan_returns: "\<exists>out. play_azaan r prayer = Inr out \<and> Playing prayer \<in> set out \<and>
    (\<forall>q. Playing q \<in> set out \<longrightarrow> q = prayer) \<and> Fetching \<notin> set out \<and>
    (\<forall>e. r = Inl e \<longrightarrow> ErrorPlaying prayer e \<in> set out)"
  by (cases r) (auto simp: play_azaan_def split: py_error.splits)

lemma check_loop_returns:
  "\<exists>self' out. check_loop afplay c pt self = Inr (self', out)"
proof (induction pt arbitrary: self)
  case Nil
  then show ?case by simp
next
  case (Cons a pt)
  obtain prayer time_str where a: "a = (prayer, time_str)" by (cases a)
  show ?case
  proof (cases "JStr c = time_str \<and> prayer \<notin> played_prayers self")
    case True
    from play_azaan_returns obtain out where o: "play_azaan (afplay prayer) prayer = Inr out" by blast
    from Cons.IH[of "self\<lparr>played_prayers := insert prayer (played_prayers self)\<rparr>"]
    obtain s2 out' where "check_loop afplay c pt (self\<lparr>played_prayers := insert prayer (played_prayers self)\<rparr>) = Inr (s2, out')"
      by blast
    with True a o show ?thesis by (simp add: Let_def)
  next
    case False
    with a Cons.IH[of self] show ?thesis by auto
  qed
qed

lemma check_loop_frame:
  "check_loop afplay c pt self = Inr (self', out) \<Longrightarrow>
   mock_time self' = mock_time self \<and> mock_start_time self' = mock_start_time self \<and>
   prayer_times self' = prayer_times self \<and> prayer_date self' = prayer_date self \<and>
   jobs self' = jobs self \<and> played_prayers self \<subseteq> played_prayers self' \<and> Fetching \<notin> set out"
proof (induction pt arbitrary: self self' out)
  case Nil
  then show ?case by simp
next
  case (Cons a pt)
  obtain prayer time_str where a: "a = (prayer, time_str)" by (cases a)
  show ?case
  proof (cases "JStr c = time_str \<and> prayer \<notin> played_prayers self")
    case True
    let ?s1 = "self\<lparr>played_prayers := insert prayer (played_prayers self)\<rparr>"
    from play_azaan_returns obtain o1 where o: "play_azaan (afplay prayer) prayer = Inr o1"
      and nf: "Fetching \<notin> set o1" by blast
    from Cons.prems True a o obtain o2 where r: "check_loop afplay c pt ?s1 = Inr (self', o2)"
      and out: "out = o1 @ o2"
      by (auto simp: Let_def split: sum.splits)
    from Cons.IH[OF r] nf out show ?thesis by auto
  next
    case False
    with a Cons.prems have "check_loop afplay c pt self = Inr (self', out)" by auto
    from Cons.IH[OF this] show ?thesis .
  qed
qed

lemma check_loop_no_replay:
  "prayer \<in> played_prayers self \<Longrightarrow> check_loop afplay c pt self = Inr (self', out) \<Longrightarrow>
   Playing prayer \<notin> set out"
proof (induction pt arbitrary: self self' out)
  case Nil
  then show ?case by simp
next
  case (Cons a pt)
  obtain q time_str where a: "a = (q, time_str)" by (cases a)
  show ?case
  proof (cases "JStr c = time_str \<and> q \<notin> played_prayers self")
    case True
    let ?s1 = "self\<lparr>played_prayers := insert q (played_prayers self)\<rparr>"
    from True Cons.prems(1) have ne: "q \<noteq> prayer" by auto
    from play_azaan_returns obtain o1 where o: "play_azaan (afplay q) q = Inr o1"
      and only: "\<forall>p. Playing p \<in> set o1 \<longrightarrow> p = q" by blast
    from Cons.prems(2) True a o obtain o2 where r: "check_loop afplay c pt ?s1 = Inr (self', o2)"
      and out: "out = o1 @ o2"
      by (auto simp: Let_def split: sum.splits)
    have "prayer \<in> played_prayers ?s1" using Cons.prems(1) by simp
    from Cons.IH[OF this r] only ne out show ?thesis by auto
  next
    case False
    with a Cons.prems have "check_loop afplay c pt self = Inr (self', out)" by auto
    from Cons.IH[OF Cons.prems(1) this] show ?thesis .
  qed
qed

lemma check_loop_fires:
  "(prayer, JStr c) \<in> set pt \<Longrightarrow> prayer \<notin> played_prayers self \<Longrightarrow>
   check_loop afplay c pt self = Inr (self', out) \<Longrightarrow>
   prayer \<in> played_prayers self' \<and> Playing prayer \<in> set out \<and>
   (\<forall>e. afplay prayer = Inl e \<longrightarrow> ErrorPlaying prayer e \<in> set out)"
proof (induction pt arbitrary: self self' out)
  case Nil
  then show ?case by simp
next
  case (Cons a pt)
  obtain q time_str where a: "a = (q, time_str)" by (cases a)
  show ?case
  proof (cases "JStr c = time_str \<and> q \<notin> played_prayers self")
    case True
    let ?s1 = "self\<lparr>played_prayers := insert q (played_prayers self)\<rparr>"
    from play_azaan_returns obtain o1 where o: "play_azaan (afplay q) q = Inr o1"
      and pl: "Playing q \<in> set o1"
      and er: "\<forall>e. afplay q = Inl e \<longrightarrow> ErrorPlaying q e \<in> set o1" by blast
    from Cons.prems(3) True a o obtain o2 where r: "check_loop afplay c pt ?s1 = Inr (self', o2)"
      and out: "out = o1 @ o2"
      by (auto simp: Let_def split: sum.splits)
    show ?thesis
    proof (cases "q = prayer")
      case True
      from check_loop_frame[OF r] have "prayer \<in> played_prayers self'" using True by auto
      with pl er out True show ?thesis by auto
    next
      case False
      with Cons.prems(1) a have m: "(prayer, JStr c) \<in> set pt" by auto
      from False Cons.prems(2) have "prayer \<notin> played_prayers ?s1" by simp
      from Cons.IH[OF m this r] out show ?thesis by auto
    qed
  next
    case False
    with Cons.prems(1,2) a have m: "(prayer, JStr c) \<in> set pt" by auto
    from False a Cons.prems(3) have "check_loop afplay c pt self = Inr (self', out)" by auto
    from Cons.IH[OF m Cons.prems(2) this] show ?thesis .
  qed
qed

lemma run_jobs_frame:
  "run_jobs at_check it js self = Inr (self', out) \<Longrightarrow>
   mock_time self' = mock_time self \<and> mock_start_time self' = mock_start_time self \<and>
   played_prayers self' = played_prayers self"
proof (induction js arbitrary: self self' out)
  case Nil
  then show ?case by simp
next
  case (Cons j js)
  from Cons.prems obtain s1 o1 o2 where
    step: "(case action j of
              PlayAzaan prayer \<Rightarrow>
                (case play_azaan (playback it prayer) prayer of
                   Inl e \<Rightarrow> Inl e
                 | Inr out \<Rightarrow> Inr (self, out))
            | FetchAndReschedule \<Rightarrow> fetch_and_reschedule at_check (response it) self) = Inr (s1, o1)"
    and rest: "run_jobs at_check it js s1 = Inr (self', o2)"
    by (auto split: sum.splits)
  have "mock_time s1 = mock_time self \<and> mock_start_time s1 = mock_start_time self \<and>
        played_prayers s1 = played_prayers self"
  proof (cases "action j")
    case (PlayAzaan prayer)
    with step show ?thesis by (auto split: sum.splits)
  next
    case FetchAndReschedule
    with step have "fetch_and_reschedule at_check (response it) self = Inr (s1, o1)" by simp
    from fetch_and_reschedule_frame[OF this] show ?thesis .
  qed
  with Cons.IH[OF rest] show ?case by simp
qed

lemma check_prayer_times_mock_returns:
  "\<exists>self' out. check_prayer_times_mock afplay self wall = Inr (self', out)"
  by (simp add: check_prayer_times_mock_def Let_def check_loop_returns)

lemma check_prayer_times_mock_frame:
  assumes "check_prayer_times_mock afplay self wall = Inr (self', out)"
  shows "mock_time self' = mock_time self \<and> mock_start_time self' = mock_start_time self \<and>
   prayer_times self' = prayer_times self \<and> prayer_date self' = prayer_date self \<and>
   jobs self' = jobs self \<and> played_prayers self \<subseteq> played_prayers self' \<and> Fetching \<notin> set out"
  using assms check_loop_frame unfolding check_prayer_times_mock_def Let_def by blast

lemma check_prayer_times_mock_no_replay:
  assumes "prayer \<in> played_prayers self" "check_prayer_times_mock afplay self wall = Inr (self', out)"
  shows "Playing prayer \<notin> set out"
  using assms check_loop_no_replay unfolding check_prayer_times_mock_def Let_def by blast

lemma loop_body_frame:
  assumes "loop_body at_check it self = Inr (self', out)"
  shows "mock_time self' = mock_time self \<and> mock_start_time self' = mock_start_time self \<and>
         played_prayers self \<subseteq> played_prayers self'"
proof (cases "mock_time self \<noteq> None")
  case True
  with assms have "check_prayer_times_mock (playback it) self (wall_clock it) = Inr (self', out)"
    by (simp add: loop_body_def)
  from check_prayer_times_mock_frame[OF this] show ?thesis by simp
next
  case False
  with assms have "run_jobs at_check it (pending it) self = Inr (self', out)"
    by (simp add: loop_body_def)
  from run_jobs_frame[OF this] show ?thesis by simp
qed

lemma run_loop_frame:
  "run_loop at_check its self = Inr (self', out) \<Longrightarrow>
   mock_time self' = mock_time self \<and> mock_start_time self' = mock_start_time self \<and>
   played_prayers self \<subseteq> played_prayers self'"
proof (induction its arbitrary: self self' out)
  case Nil
  then show ?case by simp
next
  case (Cons it its)
  from Cons.prems obtain s1 o1 o2 where b: "loop_body at_check it self = Inr (s1, o1)"
    and r: "run_loop at_check its s1 = Inr (self', o2)"
    by (auto split: sum.splits)
  from loop_body_frame[OF b] Cons.IH[OF r] show ?case by auto
qed

lemma run_frame:
  assumes "run at_check r wall its self = Inr (self', out)"
  shows "mock_time self' = mock_time self \<and> mock_start_time self' = mock_start_time self \<and>
         played_prayers self \<subseteq> played_prayers self'"
proof -
  from assms obtain s1 ok ev where s: "schedule_prayers at_check r self = Inr (s1, ok, ev)"
    by (auto simp: run_def split: sum.splits)
  show ?thesis
  proof (cases ok)
    case False
    with assms s have "self' = s1" by (simp add: run_def)
    with schedule_prayers_frame[OF s] show ?thesis by simp
  next
    case True
    with assms s obtain o2 where "run_loop at_check its s1 = Inr (self', o2)"
      by (auto simp: run_def split: sum.splits)
    from run_loop_frame[OF this] schedule_prayers_frame[OF s] show ?thesis by simp
  qed
qed

lemma run_loop_mock:
  "mock_time self \<noteq> None \<Longrightarrow>
   \<exists>self' out. run_loop at_check its self = Inr (self', out) \<and> Fetching \<notin> set out \<and>
     prayer_times self' = prayer_times self \<and> prayer_date self' = prayer_date self \<and>
     jobs self' = jobs self \<and> played_prayers self \<subseteq> played_prayers self' \<and>
     (\<forall>prayer \<in> played_prayers self. Playing prayer \<notin> set out)"
proof (induction its arbitrary: self)
  case Nil
  then show ?case by simp
next
  case (Cons it its)
  from check_prayer_times_mock_returns obtain s1 o1 where
    c: "check_prayer_times_mock (playback it) self (wall_clock it) = Inr (s1, o1)" by blast
  with Cons.prems have b: "loop_body at_check it self = Inr (s1, o1)" by (simp add: loop_body_def)
  note f = check_prayer_times_mock_frame[OF c]
  from f Cons.prems have "mock_time s1 \<noteq> None" by simp
  from Cons.IH[OF this] obtain s2 o2 where r: "run_loop at_check its s1 = Inr (s2, o2)"
    and nf: "Fetching \<notin> set o2" and fr: "prayer_times s2 = prayer_times s1" "prayer_date s2 = prayer_date s1"
      "jobs s2 = jobs s1" "played_prayers s1 \<subseteq> played_prayers s2"
    and np: "\<forall>prayer \<in> played_prayers s1. Playing prayer \<notin> set o2" by blast
  have "\<forall>prayer \<in> played_prayers self. Playing prayer \<notin> set (o1 @ o2)"
    using check_prayer_times_mock_no_replay[OF _ c] np f by auto
  moreover have "run_loop at_check (it # its) self = Inr (s2, o1 @ o2)" using b r by simp
  ultimately show ?case using f nf fr by auto
qed

lemma run_loop_real:
  "mock_time self = None \<Longrightarrow> run_loop at_check its self = Inr (self', out) \<Longrightarrow>
   played_prayers self' = played_prayers self"
proof (induction its arbitrary: self self' out)
  case Nil
  then show ?case by simp
next
  case (Cons it its)
  from Cons.prems(2) obtain s1 o1 o2 where b: "loop_body at_check it self = Inr (s1, o1)"
    and r: "run_loop at_check its s1 = Inr (self', o2)"
    by (auto split: sum.splits)
  from b Cons.prems(1) have "run_jobs at_check it (pending it) self = Inr (s1, o1)"
    by (simp add: loop_body_def)
  from run_jobs_frame[OF this] Cons.prems(1)
  have "mock_time s1 = None" "played_prayers s1 = played_prayers self" by simp_all
  with Cons.IH[OF _ r] show ?case by simp
qed

lemma lookup_all_missing:
  "name \<in> set ks \<Longrightarrow> map_of kvs name = None \<Longrightarrow> \<exists>e. lookup_all (JObj kvs) ks = Inl e"
  by (induction ks) (auto split: sum.splits option.splits)

lemma lookup_all_values:
  "lookup_all timings ks = Inr pt \<Longrightarrow> (k, v) \<in> set pt \<Longrightarrow> getitem timings k = Inr v"
  by (induction ks arbitrary: pt) (auto split: sum.splits)

section \<open>The refresh job in real mode\<close>

lemma next_0001_later: "t < next_0001 t"
proof -
  have "t = combine (date_of t) (time_of t)" by (simp add: combine_def date_of_def time_of_def)
  moreover have "time_of t < us_per_day" using time_of_range by simp
  ultimately show ?thesis
    by (auto simp: next_0001_def combine_def at_0001_def mk_time_def us_per_day_def)
qed

lemma at_0001_range: "0 \<le> at_0001 \<and> at_0001 < us_per_day"
  by (simp add: at_0001_def mk_time_def us_per_day_def)

lemma next_0001_least:
  assumes "t < combine d at_0001"
  shows "next_0001 t \<le> combine d at_0001"
proof -
  have t: "t = date_of t * us_per_day + time_of t" by (simp add: date_of_def time_of_def)
  have r: "0 \<le> time_of t" "time_of t < us_per_day" using time_of_range by simp_all
  from assms have a: "t < d * us_per_day + at_0001" by (simp add: combine_def)
  show ?thesis
  proof (cases "at_0001 > time_of t")
    case True
    have "date_of t \<le> d"
    proof (rule ccontr)
      assume "\<not> date_of t \<le> d"
      then have "d + 1 \<le> date_of t" by simp
      then have "(d + 1) * us_per_day \<le> date_of t * us_per_day"
        by (simp add: us_per_day_def)
      moreover have "(d + 1) * us_per_day = d * us_per_day + us_per_day" by (simp add: algebra_simps)
      ultimately show False using a t r at_0001_range by linarith
    qed
    then have "date_of t * us_per_day \<le> d * us_per_day" by (simp add: us_per_day_def)
    with True show ?thesis by (simp add: next_0001_def combine_def)
  next
    case False
    have "date_of t + 1 \<le> d"
    proof (rule ccontr)
      assume "\<not> date_of t + 1 \<le> d"
      then have "d \<le> date_of t" by simp
      then have "d * us_per_day \<le> date_of t * us_per_day" by (simp add: us_per_day_def)
      with a t False show False by linarith
    qed
    then have "(date_of t + 1) * us_per_day \<le> d * us_per_day" by (simp add: us_per_day_def)
    with False show ?thesis by (simp add: next_0001_def combine_def)
  qed
qed

lemma next_0001_is_0001: "\<exists>d. next_0001 t = combine d (at_0001)"
  by (auto simp: next_0001_def)

lemma next_0001_reached:
  "next_0001 prev \<le> w \<longleftrightarrow> (\<exists>d. prev < combine d (at_0001) \<and> combine d (at_0001) \<le> w)"
proof
  assume a: "next_0001 prev \<le> w"
  from next_0001_is_0001 obtain d where d: "next_0001 prev = combine d (at_0001)" by blast
  with a next_0001_later[of prev] show "\<exists>d. prev < combine d (at_0001) \<and> combine d (at_0001) \<le> w"
    by auto
next
  assume "\<exists>d. prev < combine d (at_0001) \<and> combine d (at_0001) \<le> w"
  then obtain d where "prev < combine d (at_0001)" "combine d (at_0001) \<le> w" by blast
  with next_0001_least[of prev d] show "next_0001 prev \<le> w" by simp
qed

lemma next_0001_stable:
  assumes "prev \<le> w" "w < next_0001 prev"
  shows "next_0001 w = next_0001 prev"
proof -
  from next_0001_is_0001 obtain d where d: "next_0001 prev = combine d (at_0001)" by blast
  from next_0001_is_0001 obtain d' where d': "next_0001 w = combine d' (at_0001)" by blast
  from assms(2) d have "next_0001 w \<le> next_0001 prev" using next_0001_least[of w d] by simp
  moreover have "prev < next_0001 w" using assms(1) next_0001_later[of w] by simp
  then have "next_0001 prev \<le> next_0001 w" using next_0001_least[of prev d'] d' by simp
  ultimately show ?thesis by simp
qed

lemma register_prayers_jobs:
  "register_prayers at_check pt js = Inr js' \<Longrightarrow>
   js' = js @ map (\<lambda>(prayer, time_str). \<lparr>at_time = time_str, action = PlayAzaan prayer\<rparr>) pt"
proof (induction pt arbitrary: js)
  case Nil
  then show ?case by simp
next
  case (Cons a pt)
  obtain prayer time_str where a: "a = (prayer, time_str)" by (cases a)
  from Cons.prems a have
    "register_prayers at_check pt (js @ [\<lparr>at_time = time_str, action = PlayAzaan prayer\<rparr>]) = Inr js'"
    by (auto split: option.splits)
  from Cons.IH[OF this] a show ?case by simp
qed

lemma fetch_and_reschedule_cases:
  assumes "fetch_and_reschedule at_check r self = Inr (self', ev)"
  shows "ev = [Fetching] \<and>
         ((\<exists>ev1. fetch_prayer_times r self = (self', False, ev1)) \<or>
          (\<exists>s1 ev1. fetch_prayer_times r self = (s1, True, ev1) \<and>
             self' = s1\<lparr>jobs := map (\<lambda>(prayer, time_str). \<lparr>at_time = time_str, action = PlayAzaan prayer\<rparr>)
                                   (prayer_times s1)
                                 @ [\<lparr>at_time = JStr ''00:01'', action = FetchAndReschedule\<rparr>]\<rparr>))"
proof -
  obtain s1 ok1 ev1 where f: "fetch_prayer_times r self = (s1, ok1, ev1)"
    using prod_cases3 by blast
  from fetch_prayer_times_cases[OF f] have e: "ev1 = [Fetching]" by simp
  show ?thesis
  proof (cases ok1)
    case False
    with assms f e show ?thesis by (auto simp: fetch_and_reschedule_def)
  next
    case True
    with assms f obtain ok2 ev2 where sp: "schedule_prayers at_check r s1 = Inr (self', ok2, ev2)"
      and ev: "ev = ev1 @ ev2"
      by (auto simp: fetch_and_reschedule_def split: sum.splits)
    from fetch_prayer_times_success f True have ne: "prayer_times s1 \<noteq> []"
      by (fastforce simp: prayer_names_def)
    from schedule_prayers_cases[OF sp] ne obtain js where
      e2: "ev2 = []" and reg: "register_prayers at_check (prayer_times s1) [] = Inr js"
      and s: "self' = s1\<lparr>jobs := js @ [\<lparr>at_time = JStr ''00:01'', action = FetchAndReschedule\<rparr>]\<rparr>"
      by auto
    from register_prayers_jobs[OF reg] s
    have "self' = s1\<lparr>jobs := map (\<lambda>(prayer, time_str). \<lparr>at_time = time_str, action = PlayAzaan prayer\<rparr>)
                                   (prayer_times s1)
                                 @ [\<lparr>at_time = JStr ''00:01'', action = FetchAndReschedule\<rparr>]\<rparr>"
      by simp
    with f True e e2 ev show ?thesis by simp
  qed
qed

lemma play_jobs_not_refresh:
  "filter is_refresh (map (\<lambda>(prayer, time_str). \<lparr>at_time = time_str, action = PlayAzaan prayer\<rparr>) pt) = []"
  by (induction pt) (auto simp: is_refresh_def)

lemma fetch_and_reschedule_registered:
  assumes "fetch_and_reschedule at_check r self = Inr (self', ev)"
    and "filter is_refresh (jobs self) = [refresh_job]"
  shows "filter is_refresh (jobs self') = [refresh_job] \<and> mock_time self' = mock_time self"
proof -
  from fetch_and_reschedule_cases[OF assms(1)] show ?thesis
  proof (elim conjE disjE exE)
    fix ev1 assume "fetch_prayer_times r self = (self', False, ev1)"
    from fetch_prayer_times_frame[OF this] assms(2) show ?thesis by simp
  next
    fix s1 ev1 assume f: "fetch_prayer_times r self = (s1, True, ev1)"
      and s: "self' = s1\<lparr>jobs := map (\<lambda>(prayer, time_str). \<lparr>at_time = time_str, action = PlayAzaan prayer\<rparr>)
                                   (prayer_times s1)
                                 @ [\<lparr>at_time = JStr ''00:01'', action = FetchAndReschedule\<rparr>]\<rparr>"
    from s have "filter is_refresh (jobs self') = [refresh_job]"
      by (simp add: play_jobs_not_refresh) (simp add: is_refresh_def refresh_job_def)
    moreover from s fetch_prayer_times_frame[OF f] have "mock_time self' = mock_time self" by simp
    ultimately show ?thesis by simp
  qed
qed

lemma play_azaan_no_fetch:
  "play_azaan r prayer = Inr out \<Longrightarrow> filter (\<lambda>e. e = Fetching) out = []"
  using play_azaan_returns[of r prayer] by (auto simp: filter_empty_conv)

lemma run_jobs_refreshes:
  "filter is_refresh (jobs self) = [refresh_job] \<Longrightarrow>
   run_jobs at_check it js self = Inr (self', out) \<Longrightarrow>
   length (filter (\<lambda>e. e = Fetching) out) = length (filter is_refresh js) \<and>
   filter is_refresh (jobs self') = [refresh_job] \<and> mock_time self' = mock_time self"
proof (induction js arbitrary: self self' out)
  case Nil
  then show ?case by simp
next
  case (Cons j js)
  from Cons.prems(2) obtain s1 o1 o2 where
    step: "(case action j of
              PlayAzaan prayer \<Rightarrow>
                (case play_azaan (playback it prayer) prayer of
                   Inl e \<Rightarrow> Inl e
                 | Inr out \<Rightarrow> Inr (self, out))
            | FetchAndReschedule \<Rightarrow> fetch_and_reschedule at_check (response it) self) = Inr (s1, o1)"
    and rest: "run_jobs at_check it js s1 = Inr (self', o2)" and out: "out = o1 @ o2"
    by (auto split: sum.splits)
  have one: "length (filter (\<lambda>e. e = Fetching) o1) = (if is_refresh j then 1 else 0) \<and>
             filter is_refresh (jobs s1) = [refresh_job] \<and> mock_time s1 = mock_time self"
  proof (cases "action j")
    case (PlayAzaan prayer)
    with step obtain po where "play_azaan (playback it prayer) prayer = Inr po" "s1 = self" "o1 = po"
      by (auto split: sum.splits)
    moreover from PlayAzaan have "\<not> is_refresh j" by (simp add: is_refresh_def)
    ultimately show ?thesis
      using play_azaan_no_fetch[of "playback it prayer" prayer po] Cons.prems(1) by simp
  next
    case FetchAndReschedule
    with step have f: "fetch_and_reschedule at_check (response it) self = Inr (s1, o1)" by simp
    from fetch_and_reschedule_cases[OF f] have "o1 = [Fetching]" by simp
    moreover from FetchAndReschedule have "is_refresh j" by (simp add: is_refresh_def)
    ultimately show ?thesis
      using fetch_and_reschedule_registered[OF f Cons.prems(1)] by simp
  qed
  from one Cons.IH[OF _ rest] out show ?case by auto
qed

lemma run_loop_refreshes:
  "mock_time self = None \<Longrightarrow> filter is_refresh (jobs self) = [refresh_job] \<Longrightarrow>
   sorted (prev # map wall_clock its) \<Longrightarrow>
   library_runs_refresh at_check (next_0001 prev) its self \<Longrightarrow>
   run_loop at_check its self = Inr (self', out) \<Longrightarrow>
   length (filter (\<lambda>e. e = Fetching) out) = passes_after_0001 prev its \<and>
   filter is_refresh (jobs self') = [refresh_job]"
proof (induction its arbitrary: self prev out)
  case Nil
  then show ?case by simp
next
  case (Cons it its)
  let ?w = "wall_clock it"
  from Cons.prems(5) obtain s1 o1 o2 where b: "loop_body at_check it self = Inr (s1, o1)"
    and r: "run_loop at_check its s1 = Inr (self', o2)" and out: "out = o1 @ o2"
    by (auto split: sum.splits)
  from b Cons.prems(1) have rj: "run_jobs at_check it (pending it) self = Inr (s1, o1)"
    by (simp add: loop_body_def)
  note one = run_jobs_refreshes[OF Cons.prems(2) rj]
  from Cons.prems(4) b have p: "filter is_refresh (pending it) =
        (if next_0001 prev \<le> ?w then filter is_refresh (jobs self) else [])"
    and l: "library_runs_refresh at_check (if next_0001 prev \<le> ?w then next_0001 ?w else next_0001 prev) its s1"
    by simp_all
  from Cons.prems(3) have le: "prev \<le> ?w" and srt: "sorted (?w # map wall_clock its)" by simp_all
  have nr: "(if next_0001 prev \<le> ?w then next_0001 ?w else next_0001 prev) = next_0001 ?w"
    using next_0001_stable[OF le] by auto
  from one Cons.prems(1) have m1: "mock_time s1 = None" and reg1: "filter is_refresh (jobs s1) = [refresh_job]"
    by simp_all
  from Cons.IH[OF m1 reg1 srt l[unfolded nr] r]
  have rest: "length (filter (\<lambda>e. e = Fetching) o2) = passes_after_0001 ?w its"
    and regf: "filter is_refresh (jobs self') = [refresh_job]" by simp_all
  from one p Cons.prems(2) have "length (filter (\<lambda>e. e = Fetching) o1) = (if next_0001 prev \<le> ?w then 1 else 0)"
    by simp
  with rest regf out show ?case by simp
qed

lemma int_div_less_iff:
  fixes x d k :: int
  assumes "0 < k"
  shows "x div k < d \<longleftrightarrow> x < d * k"
proof
  assume "x div k < d"
  then have "x div k + 1 \<le> d" by simp
  then have "(x div k + 1) * k \<le> d * k" using assms by (simp add: mult_right_mono)
  moreover have "(x div k + 1) * k = (x div k) * k + k" by (simp add: algebra_simps)
  moreover have "x = (x div k) * k + x mod k" by simp
  moreover have "x mod k < k" using assms by simp
  ultimately show "x < d * k" by linarith
next
  assume a: "x < d * k"
  show "x div k < d"
  proof (rule ccontr)
    assume "\<not> x div k < d"
    then have "d \<le> x div k" by simp
    then have "d * k \<le> (x div k) * k" using assms by (simp add: mult_right_mono)
    moreover have "x = (x div k) * k + x mod k" by simp
    moreover have "0 \<le> x mod k" using assms by simp
    ultimately have "d * k \<le> x" by linarith
    with a show False by simp
  qed
qed

lemma int_le_div_iff:
  fixes x d k :: int
  assumes "0 < k"
  shows "d \<le> x div k \<longleftrightarrow> d * k \<le> x"
  using int_div_less_iff[OF assms, of x d] by linarith

lemma instants_interval:
  "{d. a < combine d (at_0001) \<and> combine d (at_0001) \<le> b}
     = {date_of (a - at_0001) + 1 .. date_of (b - at_0001)}"
proof -
  have pos: "0 < us_per_day" by (simp add: us_per_day_def)
  have 1: "a < combine d (at_0001) \<longleftrightarrow> date_of (a - at_0001) + 1 \<le> d" for d
  proof -
    have "a < combine d (at_0001) \<longleftrightarrow> a - at_0001 < d * us_per_day"
      by (auto simp: combine_def)
    also have "\<dots> \<longleftrightarrow> (a - at_0001) div us_per_day < d"
      using int_div_less_iff[OF pos] by simp
    finally show ?thesis by (auto simp: date_of_def)
  qed
  have 2: "combine d (at_0001) \<le> b \<longleftrightarrow> d \<le> date_of (b - at_0001)" for d
  proof -
    have "combine d (at_0001) \<le> b \<longleftrightarrow> d * us_per_day \<le> b - at_0001"
      by (auto simp: combine_def)
    also have "\<dots> \<longleftrightarrow> d \<le> (b - at_0001) div us_per_day"
      using int_le_div_iff[OF pos] by simp
    finally show ?thesis by (simp add: date_of_def)
  qed
  show ?thesis by (auto simp: 1 2)
qed

lemma instants_card:
  "card {d. a < combine d (at_0001) \<and> combine d (at_0001) \<le> b}
     = nat (date_of (b - at_0001) - date_of (a - at_0001))"
  by (simp add: instants_interval)

lemma date_of_mono: "a \<le> b \<Longrightarrow> date_of a \<le> date_of b"
  by (simp add: date_of_def us_per_day_def zdiv_mono1)

lemma date_of_next_day: "date_of (a + us_per_day) = date_of a + 1"
  by (simp add: date_of_def us_per_day_def)

lemma instants_one_pass:
  assumes "prev \<le> w" "w < prev + us_per_day"
  shows "card {d. prev < combine d (at_0001) \<and> combine d (at_0001) \<le> w}
           = (if next_0001 prev \<le> w then 1 else 0)"
proof -
  let ?x = "\<lambda>t. date_of (t - at_0001)"
  have lo: "?x prev \<le> ?x w" using assms(1) by (simp add: date_of_mono)
  have "?x w \<le> ?x (prev + us_per_day)" using assms(2) by (simp add: date_of_mono)
  also have "\<dots> = ?x prev + 1" using date_of_next_day[of "prev - at_0001"] by (simp add: algebra_simps)
  finally have hi: "?x w \<le> ?x prev + 1" .
  have "next_0001 prev \<le> w \<longleftrightarrow> {d. prev < combine d (at_0001) \<and> combine d (at_0001) \<le> w} \<noteq> {}"
    by (auto simp: next_0001_reached)
  also have "\<dots> \<longleftrightarrow> ?x prev < ?x w" by (auto simp: instants_interval)
  finally have "next_0001 prev \<le> w \<longleftrightarrow> ?x prev < ?x w" .
  with lo hi show ?thesis by (auto simp: instants_card)
qed

lemma within_a_day_sorted: "within_a_day prev its \<Longrightarrow> sorted (prev # map wall_clock its)"
proof (induction its arbitrary: prev)
  case Nil
  then show ?case by simp
next
  case (Cons it its)
  from Cons.prems have p: "prev \<le> wall_clock it" and r: "within_a_day (wall_clock it) its"
    by simp_all
  from Cons.IH[OF r] have "sorted (wall_clock it # map wall_clock its)" .
  with p show ?case by auto
qed

lemma passes_after_0001_instants:
  "within_a_day prev its \<Longrightarrow>
   passes_after_0001 prev its
     = card {d. prev < combine d (at_0001) \<and>
                combine d (at_0001) \<le> last (prev # map wall_clock its)}"
proof (induction its arbitrary: prev)
  case Nil
  then show ?case by (simp add: instants_card)
next
  case (Cons it its)
  let ?w = "wall_clock it"
  let ?l = "last (?w # map wall_clock its)"
  let ?x = "\<lambda>t. date_of (t - at_0001)"
  from Cons.prems have a: "prev \<le> ?w" "?w < prev + us_per_day" and r: "within_a_day ?w its" by simp_all
  from within_a_day_sorted[OF r] have "?w \<le> ?l"
    by (metis last_in_set list.distinct(1) order_refl set_ConsD sorted_simps(2))
  then have m: "?x prev \<le> ?x ?w" "?x ?w \<le> ?x ?l" using a(1) by (simp_all add: date_of_mono)
  have "passes_after_0001 prev (it # its)
          = (if next_0001 prev \<le> ?w then 1 else 0) + passes_after_0001 ?w its" by simp
  also have "\<dots> = nat (?x ?w - ?x prev) + nat (?x ?l - ?x ?w)"
    using instants_one_pass[OF a] Cons.IH[OF r] by (simp add: instants_card)
  also have "\<dots> = nat (?x ?l - ?x prev)" using m by simp
  finally show ?case by (simp add: instants_card)
qed

section \<open>The next prayer\<close>

text \<open>
  Claim C1. For every valid table and every reading of the clock, \<open>get_next_prayer\<close>
  returns an event with a non-negative remaining duration. When some entry's timestamp of
  today is strictly later than now, the event is an entry of the table whose timestamp of
  today is later than now and is the least such timestamp, and the duration is that
  timestamp minus now. When every entry is at or before now, the event is Fajr with its
  stored time, and the duration is measured to Fajr's time on the next calendar day.
\<close>

theorem next_prayer_is_earliest_later:
  assumes "valid_table (prayer_times self)"
  shows "\<exists>prayer s d. get_next_prayer self wall = Inr (Some (prayer, s, d)) \<and> 0 \<le> d \<and>
           (if \<exists>(q, v) \<in> set (prayer_times self). \<exists>t. strptime_HM v = Inr t \<and>
                  get_current_time self wall < combine (date_of (get_current_time self wall)) t
            then \<exists>v t. (prayer, v) \<in> set (prayer_times self) \<and> strptime_HM v = Inr t \<and>
                   get_current_time self wall < combine (date_of (get_current_time self wall)) t \<and>
                   d = combine (date_of (get_current_time self wall)) t - get_current_time self wall \<and>
                   s = JStr (strftime_HM t) \<and>
                   (\<forall>(q, v') \<in> set (prayer_times self). \<forall>t'. strptime_HM v' = Inr t' \<longrightarrow>
                       get_current_time self wall < combine (date_of (get_current_time self wall)) t' \<longrightarrow>
                       combine (date_of (get_current_time self wall)) t
                         \<le> combine (date_of (get_current_time self wall)) t')
            else prayer = ''Fajr'' \<and> map_of (prayer_times self) ''Fajr'' = Some s \<and>
                 (\<exists>t. strptime_HM s = Inr t \<and>
                      d = combine (date_of (get_current_time self wall) + 1) t - get_current_time self wall))"
proof -
  define now where "now = get_current_time self wall"
  define pt where "pt = prayer_times self"
  have later: "now < combine (date_of now) t \<longleftrightarrow> time_of now < t" for t
    using combine_minus[of now t] by linarith
  have le: "combine (date_of now) t \<le> combine (date_of now) t' \<longleftrightarrow> t \<le> t'" for t t'
    by (simp add: combine_def)
  from get_next_prayer_total[OF assms, of wall] obtain prayer s d
    where r: "get_next_prayer self wall = Inr (Some (prayer, s, d))" by blast
  note c = get_next_prayer_Some[OF r, folded now_def pt_def]
  have d: "0 \<le> d"
  proof -
    from c show ?thesis
    proof
      assume "\<exists>v t. (prayer, v) \<in> set pt \<and> strptime_HM v = Inr t \<and> time_of now < t \<and>
            s = JStr (strftime_HM t) \<and> d = combine (date_of now) t - now \<and>
            (\<forall>(q, v') \<in> set pt. \<forall>t'. strptime_HM v' = Inr t' \<longrightarrow> time_of now < t' \<longrightarrow> t \<le> t')"
      then show ?thesis using combine_minus[of now] by auto
    next
      assume "(\<forall>(q, v') \<in> set pt. \<forall>t'. strptime_HM v' = Inr t' \<longrightarrow> t' \<le> time_of now) \<and>
           prayer = ''Fajr'' \<and> map_of pt ''Fajr'' = Some s \<and>
           (\<exists>t. strptime_HM s = Inr t \<and> d = combine (date_of now + 1) t - now)"
      then obtain t where t: "strptime_HM s = Inr t" and dd: "d = combine (date_of now + 1) t - now" by blast
      have "d = us_per_day + t - time_of now"
        using dd combine_minus[of now t] by (simp add: combine_def algebra_simps)
      with strptime_HM_range[OF t] time_of_range[of now] show ?thesis by linarith
    qed
  qed
  have "(if \<exists>(q, v) \<in> set pt. \<exists>t. strptime_HM v = Inr t \<and> time_of now < t
            then \<exists>v t. (prayer, v) \<in> set pt \<and> strptime_HM v = Inr t \<and> time_of now < t \<and>
                   d = combine (date_of now) t - now \<and> s = JStr (strftime_HM t) \<and>
                   (\<forall>(q, v') \<in> set pt. \<forall>t'. strptime_HM v' = Inr t' \<longrightarrow> time_of now < t' \<longrightarrow> t \<le> t')
            else prayer = ''Fajr'' \<and> map_of pt ''Fajr'' = Some s \<and>
                 (\<exists>t. strptime_HM s = Inr t \<and> d = combine (date_of now + 1) t - now))"
  proof (cases "\<exists>(q, v) \<in> set pt. \<exists>t. strptime_HM v = Inr t \<and> time_of now < t")
    case True
    with c have "\<exists>v t. (prayer, v) \<in> set pt \<and> strptime_HM v = Inr t \<and> time_of now < t \<and>
            s = JStr (strftime_HM t) \<and> d = combine (date_of now) t - now \<and>
            (\<forall>(q, v') \<in> set pt. \<forall>t'. strptime_HM v' = Inr t' \<longrightarrow> time_of now < t' \<longrightarrow> t \<le> t')"
      by fastforce
    with True show ?thesis by auto
  next
    case False
    with c have "prayer = ''Fajr'' \<and> map_of pt ''Fajr'' = Some s \<and>
           (\<exists>t. strptime_HM s = Inr t \<and> d = combine (date_of now + 1) t - now)"
      by fastforce
    with False show ?thesis by auto
  qed
  with r d show ?thesis
    unfolding later le now_def[symmetric] pt_def[symmetric] by blast
qed

theorem next_prayer_is_earliest_later_witness:
  "valid_table (prayer_times app_real) \<and>
   (\<exists>prayer s d. get_next_prayer app_real noon = Inr (Some (prayer, s, d)) \<and> 0 \<le> d)"
proof -
  have v: "valid_table (prayer_times app_real)" by code_simp
  from next_prayer_is_earliest_later[OF v, of noon] have
    "\<exists>prayer s d. get_next_prayer app_real noon = Inr (Some (prayer, s, d)) \<and> 0 \<le> d" by blast
  with v show ?thesis by simp
qed

text \<open>
  Claim C10. Whatever the table, a duration that \<open>get_next_prayer\<close> returns is strictly
  positive: it is measured either to an entry whose time of day is strictly later than
  now's, or, when every entry's time of day is at or before now's, to Fajr of the next
  day. On a valid table a duration is returned.
\<close>

theorem next_prayer_duration_positive:
  "(\<forall>prayer s d. get_next_prayer self wall = Inr (Some (prayer, s, d)) \<longrightarrow>
      0 < d \<and>
      ((\<exists>v t. (prayer, v) \<in> set (prayer_times self) \<and> strptime_HM v = Inr t \<and>
              time_of (get_current_time self wall) < t \<and>
              d = combine (date_of (get_current_time self wall)) t - get_current_time self wall)
       \<or> (prayer = ''Fajr'' \<and>
           (\<forall>(q, v) \<in> set (prayer_times self). \<forall>t. strptime_HM v = Inr t \<longrightarrow>
               t \<le> time_of (get_current_time self wall)) \<and>
           (\<exists>t. strptime_HM s = Inr t \<and>
               d = combine (date_of (get_current_time self wall) + 1) t - get_current_time self wall))))
   \<and> (valid_table (prayer_times self) \<longrightarrow>
        (\<exists>prayer s d. get_next_prayer self wall = Inr (Some (prayer, s, d)) \<and> 0 < d))"
proof -
  define now where "now = get_current_time self wall"
  define pt where "pt = prayer_times self"
  have main: "0 < d \<and>
      ((\<exists>v t. (prayer, v) \<in> set pt \<and> strptime_HM v = Inr t \<and> time_of now < t \<and>
              d = combine (date_of now) t - now)
       \<or> (prayer = ''Fajr'' \<and>
           (\<forall>(q, v) \<in> set pt. \<forall>t. strptime_HM v = Inr t \<longrightarrow> t \<le> time_of now) \<and>
           (\<exists>t. strptime_HM s = Inr t \<and> d = combine (date_of now + 1) t - now)))"
    if r: "get_next_prayer self wall = Inr (Some (prayer, s, d))" for prayer s d
  proof -
    note c = get_next_prayer_Some[OF r, folded now_def pt_def]
    from c show ?thesis
    proof
      assume a: "\<exists>v t. (prayer, v) \<in> set pt \<and> strptime_HM v = Inr t \<and> time_of now < t \<and>
            s = JStr (strftime_HM t) \<and> d = combine (date_of now) t - now \<and>
            (\<forall>(q, v') \<in> set pt. \<forall>t'. strptime_HM v' = Inr t' \<longrightarrow> time_of now < t' \<longrightarrow> t \<le> t')"
      then have "0 < d" using combine_minus[of now] by auto
      with a show ?thesis by blast
    next
      assume a: "(\<forall>(q, v') \<in> set pt. \<forall>t'. strptime_HM v' = Inr t' \<longrightarrow> t' \<le> time_of now) \<and>
           prayer = ''Fajr'' \<and> map_of pt ''Fajr'' = Some s \<and>
           (\<exists>t. strptime_HM s = Inr t \<and> d = combine (date_of now + 1) t - now)"
      then obtain t where t: "strptime_HM s = Inr t" and dd: "d = combine (date_of now + 1) t - now" by blast
      have "d = us_per_day + t - time_of now"
        using dd combine_minus[of now t] by (simp add: combine_def algebra_simps)
      with strptime_HM_range[OF t] time_of_range[of now] have "0 < d" by linarith
      with a show ?thesis by blast
    qed
  qed
  have "\<exists>prayer s d. get_next_prayer self wall = Inr (Some (prayer, s, d)) \<and> 0 < d"
    if v: "valid_table (prayer_times self)"
  proof -
    from get_next_prayer_total[OF v, of wall] obtain prayer s d
      where r: "get_next_prayer self wall = Inr (Some (prayer, s, d))" by blast
    with main[OF r] show ?thesis by blast
  qed
  with main show ?thesis unfolding now_def pt_def by blast
qed

theorem next_prayer_duration_positive_witness:
  "get_next_prayer app_real (combine 738000 (mk_time 12 15)) = Inr (Some (''Asr'', JStr ''15:45'', 12600000000)) \<and>
   valid_table (prayer_times app_real) \<and> (0::int) < 12600000000"
proof -
  have r: "get_next_prayer app_real (combine 738000 (mk_time 12 15)) = Inr (Some (''Asr'', JStr ''15:45'', 12600000000))"
    by code_simp
  have v: "valid_table (prayer_times app_real)" by code_simp
  from next_prayer_duration_positive[of app_real "combine 738000 (mk_time 12 15)"] r
  have "(0::int) < 12600000000" by blast
  with r v show ?thesis by simp
qed

text \<open>
  Claim C6, as the code has it. The claim asks for an EmptyScheduleError on a table
  without entries. The guard at the head of \<open>get_next_prayer\<close> returns the triple of
  \<^verbatim>\<open>None\<close> instead and raises nothing; the first theorem shows it on the freshly
  constructed application.
\<close>

theorem empty_table_returns_none_counterexample:
  "prayer_times (init None noon []) = [] \<and> get_next_prayer (init None noon []) noon = Inr None"
  by (simp add: init_def get_next_prayer_def)

text \<open>
  Claim C6, amended. When the table has no entries, \<open>get_next_prayer\<close> returns the triple
  \<^verbatim>\<open>(None, None, None)\<close>, at every reading of the clock, without raising.
\<close>

theorem empty_table_returns_none:
  "prayer_times self = [] \<Longrightarrow> get_next_prayer self wall = Inr None"
  by (simp add: get_next_prayer_def)

theorem empty_table_returns_none_witness:
  "prayer_times (init (Some noon) evening []) = [] \<and>
   get_next_prayer (init (Some noon) evening []) evening = Inr None"
proof -
  have e: "prayer_times (init (Some noon) evening []) = []" by (simp add: init_def)
  from empty_table_returns_none[OF e, of evening] e show ?thesis by simp
qed

section \<open>The clock\<close>

text \<open>
  Claim C8. In simulated mode \<open>get_current_time\<close> returns the simulated start plus the real
  time elapsed since the wall clock reading captured with it, so it is a function of the
  anchor pair and of the wall clock, and it advances by exactly the time by which the
  wall clock advances. The constructor sets the pair, and no pass of \<open>run\<close> (the first
  scheduling and any number of passes of the loop, in either mode) changes it.
\<close>

theorem simulated_clock_fixed_offset:
  "(mock_time self = Some mt \<and> mock_start_time self = Some st \<longrightarrow>
      get_current_time self wall = mt + (wall - st) \<and>
      get_current_time self (wall + delta) = get_current_time self wall + delta)
   \<and> mock_time (init (Some mt) wall0 js) = Some mt
   \<and> mock_start_time (init (Some mt) wall0 js) = Some wall0
   \<and> (\<forall>self' out. run at_check r wall1 its self = Inr (self', out) \<longrightarrow>
         mock_time self' = mock_time self \<and> mock_start_time self' = mock_start_time self)"
proof -
  have "\<forall>self' out. run at_check r wall1 its self = Inr (self', out) \<longrightarrow>
         mock_time self' = mock_time self \<and> mock_start_time self' = mock_start_time self"
    using run_frame by blast
  then show ?thesis by (simp add: get_current_time_def init_def)
qed

theorem simulated_clock_fixed_offset_witness:
  "mock_time app_mock = Some (combine 738000 (mk_time 18 19) + 50000000) \<and>
   mock_start_time app_mock = Some noon \<and>
   get_current_time app_mock (noon + 10000000) = combine 738000 (mk_time 18 20) \<and>
   run accept_all RequestFailed noon [pass_at (noon + 10000000) plays_fine] app_mock =
     Inr (app_mock\<lparr>played_prayers := {''Fajr'', ''Maghrib''}, jobs := scenario_jobs\<rparr>,
          [Playing ''Maghrib'', Completed ''Maghrib'']) \<and>
   mock_time (app_mock\<lparr>played_prayers := {''Fajr'', ''Maghrib''}, jobs := scenario_jobs\<rparr>) = mock_time app_mock"
proof -
  have a: "mock_time app_mock = Some (combine 738000 (mk_time 18 19) + 50000000) \<and>
           mock_start_time app_mock = Some noon"
    by (simp add: app_mock_def init_def)
  have r: "run accept_all RequestFailed noon [pass_at (noon + 10000000) plays_fine] app_mock =
     Inr (app_mock\<lparr>played_prayers := {''Fajr'', ''Maghrib''}, jobs := scenario_jobs\<rparr>,
          [Playing ''Maghrib'', Completed ''Maghrib''])"
    by code_simp
  from simulated_clock_fixed_offset[of app_mock "combine 738000 (mk_time 18 19) + 50000000" noon noon 10000000
      noon "[]" accept_all RequestFailed noon "[pass_at (noon + 10000000) plays_fine]"] a r
  have "get_current_time app_mock (noon + 10000000) = combine 738000 (mk_time 18 19) + 50000000 + 10000000 \<and>
    mock_time (app_mock\<lparr>played_prayers := {''Fajr'', ''Maghrib''}, jobs := scenario_jobs\<rparr>) = mock_time app_mock"
    by simp
  moreover have "combine 738000 (mk_time 18 19) + 50000000 + 10000000 = combine 738000 (mk_time 18 20)"
    by (simp add: combine_def mk_time_def)
  ultimately show ?thesis using a r by simp
qed

section \<open>Firing\<close>

text \<open>
  Claim C2. Once a name is in \<open>played_prayers\<close>, a call of \<open>check_prayer_times_mock\<close>, at
  any reading of the clock and so also within the same minute, returns without starting
  a playback for that name and leaves the name in the set; the same holds for any number
  of passes of the loop in simulated mode.
\<close>

theorem fired_prayer_not_replayed:
  assumes "prayer \<in> played_prayers self"
  shows "(\<exists>self' out. check_prayer_times_mock afplay self wall = Inr (self', out) \<and>
            Playing prayer \<notin> set out \<and> prayer \<in> played_prayers self')
       \<and> (mock_time self \<noteq> None \<longrightarrow>
            (\<exists>self' out. run_loop at_check its self = Inr (self', out) \<and>
               Playing prayer \<notin> set out \<and> prayer \<in> played_prayers self'))"
proof -
  from check_prayer_times_mock_returns obtain s1 o1 where
    c: "check_prayer_times_mock afplay self wall = Inr (s1, o1)" by blast
  from check_prayer_times_mock_no_replay[OF assms c] check_prayer_times_mock_frame[OF c] assms
  have one: "Playing prayer \<notin> set o1 \<and> prayer \<in> played_prayers s1" by auto
  have many: "\<exists>self' out. run_loop at_check its self = Inr (self', out) \<and>
               Playing prayer \<notin> set out \<and> prayer \<in> played_prayers self'"
    if m: "mock_time self \<noteq> None"
  proof -
    from run_loop_mock[OF m, of at_check its] obtain s2 o2 where
      "run_loop at_check its self = Inr (s2, o2)" "played_prayers self \<subseteq> played_prayers s2"
      "\<forall>p \<in> played_prayers self. Playing p \<notin> set o2" by blast
    with assms show ?thesis by auto
  qed
  from c one many show ?thesis by blast
qed

theorem fired_prayer_not_replayed_witness:
  "''Fajr'' \<in> played_prayers app_mock \<and> mock_time app_mock \<noteq> None \<and>
   strftime_HM (time_of (get_current_time app_mock (noon + 40210000000))) = ''05:30'' \<and>
   (\<exists>self' out. check_prayer_times_mock plays_fine app_mock (noon + 40210000000) = Inr (self', out) \<and>
        Playing ''Fajr'' \<notin> set out \<and> ''Fajr'' \<in> played_prayers self') \<and>
   (\<exists>self' out. run_loop accept_all [pass_at (noon + 40210000000) plays_fine,
                                     pass_at (noon + 40211000000) plays_fine] app_mock = Inr (self', out) \<and>
        Playing ''Fajr'' \<notin> set out \<and> ''Fajr'' \<in> played_prayers self')"
proof -
  have a: "''Fajr'' \<in> played_prayers app_mock" by (simp add: app_mock_def)
  have m: "mock_time app_mock \<noteq> None" by (simp add: app_mock_def init_def)
  have t: "strftime_HM (time_of (get_current_time app_mock (noon + 40210000000))) = ''05:30''"
    by code_simp
  from fired_prayer_not_replayed[OF a, of plays_fine "noon + 40210000000" accept_all
      "[pass_at (noon + 40210000000) plays_fine, pass_at (noon + 40211000000) plays_fine]"] m a t
  show ?thesis by blast
qed

text \<open>
  Claim C7. When the minute of a pending prayer has come and its playback fails, the
  call of \<open>check_prayer_times_mock\<close> still returns normally, the name is in
  \<open>played_prayers\<close> afterwards, the failure is among the reported events, and no later
  call, whatever the clock and the playback then, starts a playback for that name again.
\<close>

theorem failed_playback_still_fired:
  assumes "(prayer, JStr (strftime_HM (time_of (get_current_time self wall)))) \<in> set (prayer_times self)"
    and "prayer \<notin> played_prayers self"
    and "afplay prayer = Inl e"
  shows "\<exists>self' out. check_prayer_times_mock afplay self wall = Inr (self', out) \<and>
           prayer \<in> played_prayers self' \<and> ErrorPlaying prayer e \<in> set out \<and>
           (\<forall>afplay' wall'. \<exists>self'' out'.
               check_prayer_times_mock afplay' self' wall' = Inr (self'', out') \<and>
               Playing prayer \<notin> set out' \<and> prayer \<in> played_prayers self'')"
proof -
  define c where "c = strftime_HM (time_of (get_current_time self wall))"
  from check_loop_returns obtain s1 o1 where
    l: "check_loop afplay c (prayer_times self) self = Inr (s1, o1)" by blast
  then have r: "check_prayer_times_mock afplay self wall = Inr (s1, o1)"
    by (simp add: check_prayer_times_mock_def Let_def c_def)
  from assms(1) have "(prayer, JStr c) \<in> set (prayer_times self)" by (simp add: c_def)
  from check_loop_fires[OF this assms(2) l] assms(3)
  have f: "prayer \<in> played_prayers s1" "ErrorPlaying prayer e \<in> set o1" by auto
  have "\<exists>self'' out'. check_prayer_times_mock afplay' s1 wall' = Inr (self'', out') \<and>
               Playing prayer \<notin> set out' \<and> prayer \<in> played_prayers self''" for afplay' wall'
  proof -
    from check_prayer_times_mock_returns obtain s2 o2 where
      c2: "check_prayer_times_mock afplay' s1 wall' = Inr (s2, o2)" by blast
    from check_prayer_times_mock_no_replay[OF f(1) c2] check_prayer_times_mock_frame[OF c2] f(1) c2
    show ?thesis by auto
  qed
  with r f show ?thesis by blast
qed

theorem failed_playback_still_fired_witness:
  "(''Maghrib'', JStr (strftime_HM (time_of (get_current_time app_mock (noon + 10000000)))))
      \<in> set (prayer_times app_mock) \<and>
   ''Maghrib'' \<notin> played_prayers app_mock \<and> plays_badly ''Maghrib'' = Inl CalledProcessError \<and>
   check_prayer_times_mock plays_badly app_mock (noon + 10000000) =
     Inr (app_mock\<lparr>played_prayers := {''Fajr'', ''Maghrib''}\<rparr>,
          [Playing ''Maghrib'', ErrorPlaying ''Maghrib'' CalledProcessError]) \<and>
   (\<exists>self' out. check_prayer_times_mock plays_badly app_mock (noon + 10000000) = Inr (self', out) \<and>
       ''Maghrib'' \<in> played_prayers self' \<and> ErrorPlaying ''Maghrib'' CalledProcessError \<in> set out)"
proof -
  have a: "(''Maghrib'', JStr (strftime_HM (time_of (get_current_time app_mock (noon + 10000000)))))
      \<in> set (prayer_times app_mock)" by code_simp
  have b: "''Maghrib'' \<notin> played_prayers app_mock" by (simp add: app_mock_def)
  have c: "plays_badly ''Maghrib'' = Inl CalledProcessError" by (simp add: plays_badly_def)
  have d: "check_prayer_times_mock plays_badly app_mock (noon + 10000000) =
     Inr (app_mock\<lparr>played_prayers := {''Fajr'', ''Maghrib''}\<rparr>,
          [Playing ''Maghrib'', ErrorPlaying ''Maghrib'' CalledProcessError])" by code_simp
  from failed_playback_still_fired[of "''Maghrib''" app_mock "noon + 10000000" plays_badly CalledProcessError, OF a b c]
    a b c d show ?thesis by blast
qed

section \<open>The daily refresh\<close>

text \<open>
  Claim C3, as the code has it. The claim asks for an empty \<open>played_prayers\<close> after a
  successful refresh, whatever had fired before. No statement of the program removes a
  name from \<open>played_prayers\<close>. An application is constructed in simulated mode, schedules
  its prayers, plays Maghrib at the tick of 18:20, and is then refreshed with the payload
  of the next day: the fetch succeeds, the table, the date and the jobs are the new ones,
  and Maghrib is still in the set.
\<close>

theorem refresh_keeps_played_prayers_counterexample:
  "schedule_prayers accept_all (Response 200 (Some payload_ok)) app_sim0 = Inr (app_sim1, True, [Fetching]) \<and>
   check_prayer_times_mock plays_fine app_sim1 (noon + 10000000) =
     Inr (app_sim2, [Playing ''Maghrib'', Completed ''Maghrib'']) \<and>
   fetch_prayer_times (Response 200 (Some payload_next)) app_sim2 =
     (app_sim2\<lparr>prayer_times := stale_table, prayer_date := Some (JStr ''05 Nov 2026'')\<rparr>,
      True, [Fetching]) \<and>
   fetch_and_reschedule accept_all (Response 200 (Some payload_next)) app_sim2 =
     Inr (app_sim3, [Fetching]) \<and>
   played_prayers app_sim3 = {''Maghrib''}"
proof -
  have a: "schedule_prayers accept_all (Response 200 (Some payload_ok)) app_sim0 =
     Inr (app_sim1, True, [Fetching])" by code_simp
  have b: "check_prayer_times_mock plays_fine app_sim1 (noon + 10000000) =
     Inr (app_sim2, [Playing ''Maghrib'', Completed ''Maghrib''])" by code_simp
  have c: "fetch_prayer_times (Response 200 (Some payload_next)) app_sim2 =
     (app_sim2\<lparr>prayer_times := stale_table, prayer_date := Some (JStr ''05 Nov 2026'')\<rparr>,
      True, [Fetching])" by code_simp
  have d: "fetch_and_reschedule accept_all (Response 200 (Some payload_next)) app_sim2 =
     Inr (app_sim3, [Fetching])" by code_simp
  have e: "played_prayers app_sim3 = {''Maghrib''}"
    by (simp add: app_sim3_def app_sim2_def)
  from a b c d e show ?thesis by simp
qed

text \<open>
  Claim C3, amended. \<open>fetch_and_reschedule\<close> never changes \<open>played_prayers\<close>: after a
  refresh the set is exactly what it was before, so a name that had fired stays in it.
  When the fetch succeeds, the table and the date are the fetched ones, the table holds
  the five names, and the jobs are registered anew from the new table: one playback job
  for each entry, then the refresh job. No pass of the loop in simulated mode runs the
  refresh, and in real mode, where the loop does run it, no pass of the loop changes
  \<open>played_prayers\<close>.
\<close>

theorem refresh_leaves_played_prayers:
  "(\<forall>self' ev. fetch_and_reschedule at_check r self = Inr (self', ev) \<longrightarrow>
      played_prayers self' = played_prayers self)
   \<and> (\<forall>s1 ev1 self' ev. fetch_prayer_times r self = (s1, True, ev1) \<longrightarrow>
         fetch_and_reschedule at_check r self = Inr (self', ev) \<longrightarrow>
         prayer_times self' = prayer_times s1 \<and> prayer_date self' = prayer_date s1 \<and>
         map fst (prayer_times self') = prayer_names \<and>
         jobs self' = map (\<lambda>(prayer, time_str). \<lparr>at_time = time_str, action = PlayAzaan prayer\<rparr>)
                          (prayer_times self') @ [refresh_job])
   \<and> (mock_time self \<noteq> None \<longrightarrow>
        (\<exists>self' out. run_loop at_check its self = Inr (self', out) \<and> Fetching \<notin> set out))
   \<and> (mock_time self = None \<longrightarrow>
        (\<forall>self' out. run_loop at_check its self = Inr (self', out) \<longrightarrow>
           played_prayers self' = played_prayers self))"
proof -
  have one: "played_prayers self' = played_prayers self"
    if "fetch_and_reschedule at_check r self = Inr (self', ev)" for self' ev
    using fetch_and_reschedule_frame[OF that] by simp
  have two: "prayer_times self' = prayer_times s1 \<and> prayer_date self' = prayer_date s1 \<and>
         map fst (prayer_times self') = prayer_names \<and>
         jobs self' = map (\<lambda>(prayer, time_str). \<lparr>at_time = time_str, action = PlayAzaan prayer\<rparr>)
                          (prayer_times self') @ [refresh_job]"
    if f: "fetch_prayer_times r self = (s1, True, ev1)"
      and g: "fetch_and_reschedule at_check r self = Inr (self', ev)" for s1 ev1 self' ev
  proof -
    note ok = fetch_prayer_times_success[OF f]
    from fetch_and_reschedule_cases[OF g] f
    have "self' = s1\<lparr>jobs := map (\<lambda>(prayer, time_str). \<lparr>at_time = time_str, action = PlayAzaan prayer\<rparr>)
                                   (prayer_times s1)
                                 @ [\<lparr>at_time = JStr ''00:01'', action = FetchAndReschedule\<rparr>]\<rparr>"
      by auto
    with ok show ?thesis by (simp add: refresh_job_def)
  qed
  have three: "\<exists>self' out. run_loop at_check its self = Inr (self', out) \<and> Fetching \<notin> set out"
    if m: "mock_time self \<noteq> None"
    using run_loop_mock[OF m, of at_check its] by blast
  have four: "played_prayers self' = played_prayers self"
    if "mock_time self = None" "run_loop at_check its self = Inr (self', out)" for self' out
    using run_loop_real[OF that] .
  from one two three four show ?thesis by blast
qed

theorem refresh_leaves_played_prayers_witness:
  "played_prayers app_mock = {''Fajr''} \<and> mock_time app_mock \<noteq> None \<and>
   fetch_prayer_times (Response 200 (Some payload_next)) app_mock =
     (app_mock\<lparr>prayer_times := stale_table, prayer_date := Some (JStr ''05 Nov 2026'')\<rparr>,
      True, [Fetching]) \<and>
   fetch_and_reschedule accept_all (Response 200 (Some payload_next)) app_mock =
     Inr (app_mock\<lparr>prayer_times := stale_table, prayer_date := Some (JStr ''05 Nov 2026''),
                   jobs := stale_jobs\<rparr>, [Fetching]) \<and>
   played_prayers (app_mock\<lparr>prayer_times := stale_table, prayer_date := Some (JStr ''05 Nov 2026''),
                   jobs := stale_jobs\<rparr>) = {''Fajr''} \<and>
   (\<exists>self' out. run_loop accept_all [pass_at (noon + 20470000000) plays_fine] app_mock = Inr (self', out) \<and>
       Fetching \<notin> set out) \<and>
   mock_time app_scheduled = None \<and>
   run_loop accept_all real_passes app_scheduled =
     Inr (app_stale\<lparr>prayer_times := scenario_table, prayer_date := Some (JStr ''04 Nov 2026''),
                    jobs := scenario_jobs\<rparr>, [Fetching, Fetching]) \<and>
   played_prayers (app_stale\<lparr>prayer_times := scenario_table, prayer_date := Some (JStr ''04 Nov 2026''),
                    jobs := scenario_jobs\<rparr>) = played_prayers app_scheduled"
proof -
  have p: "played_prayers app_mock = {''Fajr''}" by (simp add: app_mock_def)
  have k: "mock_time app_mock \<noteq> None" by (simp add: app_mock_def init_def)
  have f: "fetch_prayer_times (Response 200 (Some payload_next)) app_mock =
     (app_mock\<lparr>prayer_times := stale_table, prayer_date := Some (JStr ''05 Nov 2026'')\<rparr>,
      True, [Fetching])" by code_simp
  have g: "fetch_and_reschedule accept_all (Response 200 (Some payload_next)) app_mock =
     Inr (app_mock\<lparr>prayer_times := stale_table, prayer_date := Some (JStr ''05 Nov 2026''),
                   jobs := stale_jobs\<rparr>, [Fetching])" by code_simp
  have m: "mock_time app_scheduled = None"
    by (simp add: app_scheduled_def app_stale_def app_real_def init_def)
  have rl: "run_loop accept_all real_passes app_scheduled =
     Inr (app_stale\<lparr>prayer_times := scenario_table, prayer_date := Some (JStr ''04 Nov 2026''),
                    jobs := scenario_jobs\<rparr>, [Fetching, Fetching])" by code_simp
  from refresh_leaves_played_prayers[of accept_all "Response 200 (Some payload_next)" app_mock
      "[pass_at (noon + 20470000000) plays_fine]"] g k
  have u: "played_prayers (app_mock\<lparr>prayer_times := stale_table, prayer_date := Some (JStr ''05 Nov 2026''),
                   jobs := stale_jobs\<rparr>) = played_prayers app_mock \<and>
     (\<exists>self' out. run_loop accept_all [pass_at (noon + 20470000000) plays_fine] app_mock = Inr (self', out) \<and>
       Fetching \<notin> set out)" by blast
  from refresh_leaves_played_prayers[of accept_all RequestFailed app_scheduled real_passes] m rl
  have v: "played_prayers (app_stale\<lparr>prayer_times := scenario_table, prayer_date := Some (JStr ''04 Nov 2026''),
                    jobs := scenario_jobs\<rparr>) = played_prayers app_scheduled" by blast
  from p k f g m rl u v show ?thesis by simp
qed

text \<open>
  Claim C4, evaluated where the code departs from it. The supplier answers 200 with a
  payload that carries the five times and no date. \<open>fetch_prayer_times\<close> assigns the
  table, fails on the date and returns \<^verbatim>\<open>False\<close>: the fetch is reported as failed, and the
  table is the new one while the date is still the old one.
\<close>

theorem failed_fetch_overwrites_table:
  "prayer_times app_stale = stale_table \<and> stale_table \<noteq> scenario_table \<and>
   fetch_prayer_times (Response 200 (Some payload_no_date)) app_stale =
     (app_stale\<lparr>prayer_times := scenario_table\<rparr>, False, [Fetching]) \<and>
   fetch_and_reschedule accept_all (Response 200 (Some payload_no_date)) app_stale =
     Inr (app_stale\<lparr>prayer_times := scenario_table\<rparr>, [Fetching]) \<and>
   prayer_times (app_stale\<lparr>prayer_times := scenario_table\<rparr>) \<noteq> prayer_times app_stale \<and>
   prayer_date (app_stale\<lparr>prayer_times := scenario_table\<rparr>) = prayer_date app_stale"
proof -
  have a: "prayer_times app_stale = stale_table" by (simp add: app_stale_def)
  have b: "stale_table \<noteq> scenario_table" by (simp add: stale_table_def scenario_table_def)
  have c: "fetch_prayer_times (Response 200 (Some payload_no_date)) app_stale =
     (app_stale\<lparr>prayer_times := scenario_table\<rparr>, False, [Fetching])" by code_simp
  have d: "fetch_and_reschedule accept_all (Response 200 (Some payload_no_date)) app_stale =
     Inr (app_stale\<lparr>prayer_times := scenario_table\<rparr>, [Fetching])" by code_simp
  from a b c d show ?thesis by simp
qed

text \<open>
  Claim C5, as the code has it. The claim asks for a MalformedTimeError when a supplied
  time does not parse. \<open>fetch_prayer_times\<close> never parses the times: a payload whose Fajr
  time is \<^verbatim>\<open>25:99\<close>, which \<open>strptime_HM\<close> rejects, is stored and the fetch reports success.
\<close>

theorem fetch_accepts_malformed_time_counterexample:
  "strptime_HM (JStr ''25:99'') = Inl ValueError \<and>
   map_of bad_table ''Fajr'' = Some (JStr ''25:99'') \<and>
   fetch_prayer_times (Response 200 (Some payload_bad_time)) app_real =
     (app_real\<lparr>prayer_times := bad_table, prayer_date := Some (JStr ''04 Nov 2026'')\<rparr>,
      True, [Fetching])"
proof -
  have a: "strptime_HM (JStr ''25:99'') = Inl ValueError" by code_simp
  have b: "map_of bad_table ''Fajr'' = Some (JStr ''25:99'')" by (simp add: bad_table_def)
  have c: "fetch_prayer_times (Response 200 (Some payload_bad_time)) app_real =
     (app_real\<lparr>prayer_times := bad_table, prayer_date := Some (JStr ''04 Nov 2026'')\<rparr>,
      True, [Fetching])" by code_simp
  from a b c show ?thesis by simp
qed

text \<open>
  Claim C5, amended. \<open>fetch_prayer_times\<close> stores the five supplied values as they are,
  whatever they are, and reports success when the payload has the five names and the
  date. When one of the five names is absent from the timings, the fetch reports failure
  and the application is unchanged. A successful fetch changes \<open>prayer_times\<close> and
  \<open>prayer_date\<close> and nothing else.
\<close>

theorem fetch_stores_unvalidated:
  "(get_timings data = Inr timings \<and> lookup_all timings prayer_names = Inr pt \<and>
    get_readable data = Inr d \<longrightarrow>
      fetch_prayer_times (Response 200 (Some data)) self =
        (self\<lparr>prayer_times := pt, prayer_date := Some d\<rparr>, True, [Fetching]) \<and>
      map fst pt = prayer_names \<and> (\<forall>(k, v) \<in> set pt. getitem timings k = Inr v))
   \<and> (get_timings data = Inr (JObj kvs) \<and> name \<in> set prayer_names \<and> map_of kvs name = None \<longrightarrow>
        fetch_prayer_times (Response 200 (Some data)) self = (self, False, [Fetching]))
   \<and> (\<forall>self' ev. fetch_prayer_times r self = (self', True, ev) \<longrightarrow>
        (\<exists>pt' d'. self' = self\<lparr>prayer_times := pt', prayer_date := Some d'\<rparr>))"
proof -
  have one: "fetch_prayer_times (Response 200 (Some data)) self =
        (self\<lparr>prayer_times := pt, prayer_date := Some d\<rparr>, True, [Fetching]) \<and>
      map fst pt = prayer_names \<and> (\<forall>(k, v) \<in> set pt. getitem timings k = Inr v)"
    if "get_timings data = Inr timings" "lookup_all timings prayer_names = Inr pt"
      "get_readable data = Inr d"
    using that lookup_all_keys[OF that(2)] lookup_all_values[OF that(2)]
    by (auto simp: fetch_prayer_times_def Let_def)
  have two: "fetch_prayer_times (Response 200 (Some data)) self = (self, False, [Fetching])"
    if t: "get_timings data = Inr (JObj kvs)" and n: "name \<in> set prayer_names"
      and m: "map_of kvs name = None"
  proof -
    from lookup_all_missing[OF n m] obtain e where "lookup_all (JObj kvs) prayer_names = Inl e" ..
    with t show ?thesis by (simp add: fetch_prayer_times_def)
  qed
  have three: "\<exists>pt' d'. self' = self\<lparr>prayer_times := pt', prayer_date := Some d'\<rparr>"
    if "fetch_prayer_times r self = (self', True, ev)" for self' ev
    using fetch_prayer_times_cases[OF that] by auto
  from one two three show ?thesis by blast
qed

theorem fetch_stores_unvalidated_witness:
  "get_timings payload_bad_time = Inr (JObj bad_table) \<and>
   lookup_all (JObj bad_table) prayer_names = Inr bad_table \<and>
   get_readable payload_bad_time = Inr (JStr ''04 Nov 2026'') \<and>
   fetch_prayer_times (Response 200 (Some payload_bad_time)) app_stale =
     (app_stale\<lparr>prayer_times := bad_table, prayer_date := Some (JStr ''04 Nov 2026'')\<rparr>,
      True, [Fetching]) \<and>
   get_timings payload_no_isha = Inr (JObj (butlast scenario_table)) \<and>
   ''Isha'' \<in> set prayer_names \<and> map_of (butlast scenario_table) ''Isha'' = None \<and>
   fetch_prayer_times (Response 200 (Some payload_no_isha)) app_stale = (app_stale, False, [Fetching])"
proof -
  have a: "get_timings payload_bad_time = Inr (JObj bad_table)" by code_simp
  have b: "lookup_all (JObj bad_table) prayer_names = Inr bad_table" by code_simp
  have c: "get_readable payload_bad_time = Inr (JStr ''04 Nov 2026'')" by code_simp
  have d: "get_timings payload_no_isha = Inr (JObj (butlast scenario_table))" by code_simp
  have e: "''Isha'' \<in> set prayer_names" by (simp add: prayer_names_def)
  have f: "map_of (butlast scenario_table) ''Isha'' = None" by (simp add: scenario_table_def)
  from fetch_stores_unvalidated[of payload_bad_time "JObj bad_table" bad_table "JStr ''04 Nov 2026''"
      app_stale "butlast scenario_table" "''Isha''" RequestFailed] a b c
  have g: "fetch_prayer_times (Response 200 (Some payload_bad_time)) app_stale =
     (app_stale\<lparr>prayer_times := bad_table, prayer_date := Some (JStr ''04 Nov 2026'')\<rparr>,
      True, [Fetching])" by blast
  from fetch_stores_unvalidated[of payload_no_isha "JObj (butlast scenario_table)" bad_table "JNull"
      app_stale "butlast scenario_table" "''Isha''" RequestFailed] d e f
  have h: "fetch_prayer_times (Response 200 (Some payload_no_isha)) app_stale = (app_stale, False, [Fetching])"
    by blast
  from a b c d e f g h show ?thesis by simp
qed

text \<open>
  Claim C9, as the code has it. The claim asks for the refresh at 00:01 in both clock
  modes. In simulated mode the loop calls \<open>check_prayer_times_mock\<close> and never the
  library's \<^verbatim>\<open>run_pending\<close>: at 00:01 of the simulated clock, with the refresh job
  registered and due, a pass of the loop issues no fetch and changes nothing.
\<close>

theorem no_refresh_in_simulated_mode_counterexample:
  "mock_time (app_mock\<lparr>jobs := scenario_jobs\<rparr>) \<noteq> None \<and>
   strftime_HM (time_of (get_current_time (app_mock\<lparr>jobs := scenario_jobs\<rparr>) (noon + 20470000000)))
     = ''00:01'' \<and>
   pending (pass_at (noon + 20470000000) plays_fine)
     = [\<lparr>at_time = JStr ''00:01'', action = FetchAndReschedule\<rparr>] \<and>
   loop_body accept_all (pass_at (noon + 20470000000) plays_fine) (app_mock\<lparr>jobs := scenario_jobs\<rparr>)
     = Inr (app_mock\<lparr>jobs := scenario_jobs\<rparr>, [])"
proof -
  have a: "mock_time (app_mock\<lparr>jobs := scenario_jobs\<rparr>) \<noteq> None"
    by (simp add: app_mock_def init_def)
  have b: "strftime_HM (time_of (get_current_time (app_mock\<lparr>jobs := scenario_jobs\<rparr>) (noon + 20470000000)))
     = ''00:01''" by code_simp
  have c: "pending (pass_at (noon + 20470000000) plays_fine)
     = [\<lparr>at_time = JStr ''00:01'', action = FetchAndReschedule\<rparr>]" by (simp add: pass_at_def)
  have d: "loop_body accept_all (pass_at (noon + 20470000000) plays_fine) (app_mock\<lparr>jobs := scenario_jobs\<rparr>)
     = Inr (app_mock\<lparr>jobs := scenario_jobs\<rparr>, [])" by code_simp
  from a b c d show ?thesis by simp
qed

text \<open>
  Claim C9, amended. \<open>schedule_prayers\<close> registers the refresh with the library as exactly
  one job, at 00:01. In real mode a pass of the loop runs the jobs that the library finds
  due, and a due refresh job issues a fetch. In simulated mode no number of passes of the
  loop issues a fetch, and the table and the date stay as they are.
\<close>

text \<open>
  Claim C9, amended. \<open>schedule_prayers\<close> registers the refresh with the library as exactly
  one job, at 00:01. In real mode, with that job registered and the library running it
  when the clock has reached its next run time, the refresh is triggered for as long as
  the loop runs, once in every pass that is the first at or after a 00:01, and the job
  stays registered; when every pass follows the one before by less than a day, that is
  once for every 00:01 that the clock has passed, so once per calendar day. \<open>next_0001\<close>
  is reached exactly when a 00:01 lies after the earlier reading and not after the later
  one. In simulated mode no number of passes of the loop triggers the refresh, and the
  table and the date stay as they are.
\<close>

theorem refresh_once_per_0001_in_real_mode:
  "(\<forall>self' ev. schedule_prayers at_check r self = Inr (self', True, ev) \<longrightarrow>
      filter is_refresh (jobs self') = [refresh_job])
   \<and> (mock_time self = None \<and> filter is_refresh (jobs self) = [refresh_job] \<and>
       sorted (prev # map wall_clock its) \<and>
       library_runs_refresh at_check (next_0001 prev) its self \<longrightarrow>
        (\<forall>self' out. run_loop at_check its self = Inr (self', out) \<longrightarrow>
           filter is_refresh (jobs self') = [refresh_job] \<and>
           length (filter (\<lambda>e. e = Fetching) out) = passes_after_0001 prev its \<and>
           (within_a_day prev its \<longrightarrow>
              length (filter (\<lambda>e. e = Fetching) out)
                = card {d. prev < combine d at_0001 \<and>
                           combine d at_0001 \<le> last (prev # map wall_clock its)})))
   \<and> (\<forall>a b. next_0001 a \<le> b \<longleftrightarrow> (\<exists>d. a < combine d at_0001 \<and> combine d at_0001 \<le> b))
   \<and> (mock_time self \<noteq> None \<longrightarrow>
        (\<exists>self' out. run_loop at_check its self = Inr (self', out) \<and> Fetching \<notin> set out \<and>
            prayer_times self' = prayer_times self \<and> prayer_date self' = prayer_date self))"
proof -
  have one: "filter is_refresh (jobs self') = [refresh_job]"
    if sp: "schedule_prayers at_check r self = Inr (self', True, ev)" for self' ev
  proof -
    from schedule_prayers_cases[OF sp] obtain s1 js where
      reg: "register_prayers at_check (prayer_times s1) [] = Inr js"
      and s: "self' = s1\<lparr>jobs := js @ [\<lparr>at_time = JStr ''00:01'', action = FetchAndReschedule\<rparr>]\<rparr>"
      by blast
    from register_prayers_jobs[OF reg] have "filter is_refresh js = []"
      by (simp add: play_jobs_not_refresh)
    with s show ?thesis by (simp add: is_refresh_def refresh_job_def)
  qed
  have two: "filter is_refresh (jobs self') = [refresh_job] \<and>
           length (filter (\<lambda>e. e = Fetching) out) = passes_after_0001 prev its \<and>
           (within_a_day prev its \<longrightarrow>
              length (filter (\<lambda>e. e = Fetching) out)
                = card {d. prev < combine d at_0001 \<and>
                           combine d at_0001 \<le> last (prev # map wall_clock its)})"
    if h: "mock_time self = None" "filter is_refresh (jobs self) = [refresh_job]"
      "sorted (prev # map wall_clock its)" "library_runs_refresh at_check (next_0001 prev) its self"
      and rl: "run_loop at_check its self = Inr (self', out)" for self' out
    using run_loop_refreshes[OF h rl] passes_after_0001_instants[of prev its] by simp
  have three: "next_0001 a \<le> b \<longleftrightarrow> (\<exists>d. a < combine d at_0001 \<and> combine d at_0001 \<le> b)" for a b
    by (rule next_0001_reached)
  have four: "\<exists>self' out. run_loop at_check its self = Inr (self', out) \<and> Fetching \<notin> set out \<and>
            prayer_times self' = prayer_times self \<and> prayer_date self' = prayer_date self"
    if m: "mock_time self \<noteq> None"
    using run_loop_mock[OF m, of at_check its] by blast
  from one two three four show ?thesis by blast
qed

theorem refresh_once_per_0001_in_real_mode_witness:
  "schedule_prayers accept_all RequestFailed app_stale = Inr (app_scheduled, True, []) \<and>
   mock_time app_scheduled = None \<and>
   filter is_refresh (jobs app_scheduled) = [refresh_job] \<and>
   within_a_day noon real_passes \<and>
   library_runs_refresh accept_all (next_0001 noon) real_passes app_scheduled \<and>
   run_loop accept_all real_passes app_scheduled =
     Inr (app_stale\<lparr>prayer_times := scenario_table, prayer_date := Some (JStr ''04 Nov 2026''),
                    jobs := scenario_jobs\<rparr>, [Fetching, Fetching]) \<and>
   passes_after_0001 noon real_passes = 2 \<and>
   card {d. noon < combine d at_0001 \<and>
            combine d at_0001 \<le> last (noon # map wall_clock real_passes)} = 2 \<and>
   mock_time app_mock \<noteq> None \<and>
   (\<exists>self' out. run_loop accept_all [pass_at (noon + 20470000000) plays_fine,
                                      pass_at (noon + 20471000000) plays_fine] app_mock = Inr (self', out) \<and>
       Fetching \<notin> set out \<and> prayer_times self' = prayer_times app_mock \<and>
       prayer_date self' = prayer_date app_mock)"
proof -
  have a: "schedule_prayers accept_all RequestFailed app_stale = Inr (app_scheduled, True, [])"
    by code_simp
  have m: "mock_time app_scheduled = None"
    by (simp add: app_scheduled_def app_stale_def app_real_def init_def)
  have w: "within_a_day noon real_passes" by code_simp
  have s: "sorted (noon # map wall_clock real_passes)" by code_simp
  have l: "library_runs_refresh accept_all (next_0001 noon) real_passes app_scheduled" by code_simp
  have rl: "run_loop accept_all real_passes app_scheduled =
     Inr (app_stale\<lparr>prayer_times := scenario_table, prayer_date := Some (JStr ''04 Nov 2026''),
                    jobs := scenario_jobs\<rparr>, [Fetching, Fetching])" by code_simp
  have k: "mock_time app_mock \<noteq> None" by (simp add: app_mock_def init_def)
  note t = refresh_once_per_0001_in_real_mode[of accept_all RequestFailed app_stale noon real_passes]
  from t a have f: "filter is_refresh (jobs app_scheduled) = [refresh_job]" by blast
  note t2 = refresh_once_per_0001_in_real_mode[of accept_all RequestFailed app_scheduled noon real_passes]
  from t2 m f s l rl w
  have c: "length (filter (\<lambda>e. e = Fetching) [Fetching, Fetching]) = passes_after_0001 noon real_passes \<and>
           length (filter (\<lambda>e. e = Fetching) [Fetching, Fetching])
             = card {d. noon < combine d at_0001 \<and>
                        combine d at_0001 \<le> last (noon # map wall_clock real_passes)}"
    by blast
  from refresh_once_per_0001_in_real_mode[of accept_all RequestFailed app_mock noon
      "[pass_at (noon + 20470000000) plays_fine, pass_at (noon + 20471000000) plays_fine]"] k
  have g: "\<exists>self' out. run_loop accept_all [pass_at (noon + 20470000000) plays_fine,
                                      pass_at (noon + 20471000000) plays_fine] app_mock = Inr (self', out) \<and>
       Fetching \<notin> set out \<and> prayer_times self' = prayer_times app_mock \<and>
       prayer_date self' = prayer_date app_mock" by blast
  from c have c1: "passes_after_0001 noon real_passes = 2" by simp
  from c have c2: "card {d. noon < combine d at_0001 \<and>
                        combine d at_0001 \<le> last (noon # map wall_clock real_passes)} = 2" by simp
  from a m f w l rl c1 c2 k g show ?thesis by blast
qed

end
